theory Spec2Isabelle
  imports Complex_Main
begin

section \<open>Python values used by the cleaning stage of main.py\<close>

text \<open>
  The cleaning half of \<^verbatim>\<open>src/main.py\<close> (PARTIE 2) is embedded: the field parsers
  (\<^verbatim>\<open>parse_date\<close>, \<^verbatim>\<open>compute_age\<close>, \<^verbatim>\<open>zodiac_sign\<close>, \<^verbatim>\<open>parse_height_to_cm\<close>,
  \<^verbatim>\<open>parse_weight_to_kg\<close>, \<^verbatim>\<open>count_aliases\<close>, ...), the classifiers and the
  column-wise stages of \<^verbatim>\<open>clean_dataframe\<close>.

  Conventions of the embedding.
  \<^item> Text is a \<^typ>\<open>string\<close>: a list of the characters with code points 0 to 255
    (Latin-1), the range of \<^typ>\<open>char\<close>. On these the character classes of Python
    (\<^verbatim>\<open>\s\<close> and \<^verbatim>\<open>str.strip\<close>, \<^verbatim>\<open>\d\<close>, \<^verbatim>\<open>\w\<close> and \<^verbatim>\<open>\b\<close>, \<^verbatim>\<open>str.lower\<close>,
    \<^verbatim>\<open>re.IGNORECASE\<close>) are as in the interpreter, the no-break space, the next-line
    control and the accented letters included. Text with a character beyond 255 is
    outside the embedding.
  \<^item> A Python \<^verbatim>\<open>float\<close> is modelled by the rational number it denotes: decimal
    literals and products are exact, \<^verbatim>\<open>round(x, 1)\<close> rounds to the nearest tenth
    (ties to even). The rounding of binary arithmetic and the value \<^verbatim>\<open>inf\<close> of a
    product too large for a float are not modelled, so that a height or weight stands
    for the number the text denotes; which inputs raise is not affected: the conversion
    of an \<^verbatim>\<open>int\<close> to \<^verbatim>\<open>float\<close>, which raises \<^verbatim>\<open>OverflowError\<close>, and the limit of
    \<^verbatim>\<open>int\<close> on the digits of a string, which raises \<^verbatim>\<open>ValueError\<close>, are modelled.
  \<^item> An exception is a value \<open>Inl e\<close> of a sum type; \<^verbatim>\<open>None\<close>, \<^verbatim>\<open>NaN\<close> and
    \<^verbatim>\<open>NaT\<close> in a table cell are the one value \<open>NA\<close>.
  \<^item> The cells of a scraped table are strings or \<^verbatim>\<open>None\<close>. The other kinds of cell are
    what the stages write; their text \<^verbatim>\<open>str(x)\<close> is that of Python for dates, booleans
    and integers below the digit limit, and an approximation for floats.
\<close>

datatype py_error = ValueError | OverflowError | TypeError | KeyError | AttributeError

record date =
  year :: int
  month :: int
  day :: int

datatype cell = NA | Str string | DateV date | IntV int | FloatV rat | BoolV bool

subsection \<open>Characters and strings\<close>

definition is_digit :: "char \<Rightarrow> bool" where
  "is_digit c = (c \<in> set ''0123456789'')"

definition is_upper :: "char \<Rightarrow> bool" where
  "is_upper c = (c \<in> set ''ABCDEFGHIJKLMNOPQRSTUVWXYZ'')"

definition is_lower :: "char \<Rightarrow> bool" where
  "is_lower c = (c \<in> set ''abcdefghijklmnopqrstuvwxyz'')"

text \<open>
  \<^verbatim>\<open>str.isspace\<close>, which is also \<^verbatim>\<open>\s\<close> and what \<^verbatim>\<open>str.strip\<close> removes: tab, LF, VT,
  FF, CR, the separators 28 to 31, space, the next-line control U+0085 and the
  no-break space U+00A0.
\<close>

definition is_space :: "char \<Rightarrow> bool" where
  "is_space c =
     (let n = (of_char c :: nat) in
        (9 \<le> n \<and> n \<le> 13) \<or> (28 \<le> n \<and> n \<le> 32) \<or> n = 133 \<or> n = 160)"

text \<open>
  \<^verbatim>\<open>\w\<close> of the \<^verbatim>\<open>re\<close> module on text patterns: the underscore and the characters
  for which \<^verbatim>\<open>str.isalnum\<close> holds. Beyond ASCII these are U+00AA, U+00B2, U+00B3,
  U+00B5, U+00B9, U+00BA, U+00BC to U+00BE and the letters U+00C0 to U+00FF without
  the signs U+00D7 and U+00F7.
\<close>

definition is_word :: "char \<Rightarrow> bool" where
  "is_word c =
     (let n = (of_char c :: nat) in
        is_digit c \<or> is_upper c \<or> is_lower c \<or> c = CHR ''_''
        \<or> n = 170 \<or> n = 178 \<or> n = 179 \<or> n = 181 \<or> n = 185 \<or> n = 186
        \<or> (188 \<le> n \<and> n \<le> 190)
        \<or> (192 \<le> n \<and> n \<le> 214) \<or> (216 \<le> n \<and> n \<le> 246) \<or> 248 \<le> n)"

text \<open>
  \<^verbatim>\<open>str.lower\<close> on one character: the letters A to Z and U+00C0 to U+00DE (without
  the sign U+00D7) move up by 32, every other character stays.
\<close>

definition lower_char :: "char \<Rightarrow> char" where
  "lower_char c =
     (let n = (of_char c :: nat) in
        if is_upper c \<or> (192 \<le> n \<and> n \<le> 222 \<and> n \<noteq> 215) then char_of (n + 32) else c)"

definition lower :: "string \<Rightarrow> string" where
  "lower s = map lower_char s"

definition strip :: "string \<Rightarrow> string" where
  "strip s = rev (dropWhile is_space (rev (dropWhile is_space s)))"

text \<open>\<^verbatim>\<open>k in t\<close> on strings: \<open>k\<close> occurs in \<open>t\<close> as a contiguous substring.\<close>

fun starts_with :: "string \<Rightarrow> string \<Rightarrow> bool" where
  "starts_with [] t = True"
| "starts_with (k # ks) [] = False"
| "starts_with (k # ks) (c # cs) = (k = c \<and> starts_with ks cs)"

fun py_in :: "string \<Rightarrow> string \<Rightarrow> bool" where
  "py_in k [] = (k = [])"
| "py_in k (c # cs) = (starts_with k (c # cs) \<or> py_in k cs)"

subsection \<open>Numbers read from and written to text\<close>

definition digit_val :: "char \<Rightarrow> int" where
  "digit_val c = of_char c - 48"

text \<open>The number a string of decimal digits denotes.\<close>

definition digits_val :: "string \<Rightarrow> int" where
  "digits_val s = foldl (\<lambda>a c. 10 * a + digit_val c) 0 s"

definition all_digits :: "string \<Rightarrow> bool" where
  "all_digits s = (s \<noteq> [] \<and> list_all is_digit s)"

text \<open>
  \<^verbatim>\<open>int(s)\<close>: white space around the number and a sign are accepted, anything else
  than decimal digits is a \<^verbatim>\<open>ValueError\<close>, and so is a number of more than 4300
  digits, leading zeros counted (\<^verbatim>\<open>sys.get_int_max_str_digits()\<close>, at its default).
  The digit separator \<^verbatim>\<open>_\<close>, which no pattern of the program captures, is left out.
\<close>

definition max_str_digits :: nat where
  "max_str_digits = 4300"

definition int_digits :: "string \<Rightarrow> py_error + int" where
  "int_digits ds =
     (if all_digits ds \<and> length ds \<le> max_str_digits then Inr (digits_val ds) else Inl ValueError)"

definition py_int :: "string \<Rightarrow> py_error + int" where
  "py_int s =
     (case strip s of
        [] \<Rightarrow> Inl ValueError
      | c # cs \<Rightarrow>
          if c = CHR ''-'' then map_sum id uminus (int_digits cs)
          else if c = CHR ''+'' then int_digits cs
          else int_digits (c # cs))"

definition digit_char :: "nat \<Rightarrow> char" where
  "digit_char n = char_of (48 + n mod 10)"

fun nat_digits :: "nat \<Rightarrow> nat \<Rightarrow> string" where
  "nat_digits 0 n = []"
| "nat_digits (Suc k) n = nat_digits k (n div 10) @ [digit_char n]"

text \<open>\<open>zero_pad w n\<close> is \<^verbatim>\<open>"%0wd" % n\<close> for \<open>n < 10 ^ w\<close>.\<close>

definition zero_pad :: "nat \<Rightarrow> nat \<Rightarrow> string" where
  "zero_pad w n = nat_digits w n"

function show_nat :: "nat \<Rightarrow> string" where
  "show_nat n = (if n < 10 then [digit_char n] else show_nat (n div 10) @ [digit_char n])"
  by pat_completeness auto
termination
  by (relation "measure id") auto

declare show_nat.simps [simp del]

definition show_int :: "int \<Rightarrow> string" where
  "show_int i = (if i < 0 then CHR ''-'' # show_nat (nat (- i)) else show_nat (nat i))"

text \<open>
  \<^verbatim>\<open>float(s)\<close> on white space, an optional sign, digits and an optional fraction;
  every other string is a \<^verbatim>\<open>ValueError\<close> here (exponents, \<^verbatim>\<open>inf\<close> and
  \<^verbatim>\<open>nan\<close>, which no pattern of the program captures, are left out).
\<close>

definition unsigned_float :: "string \<Rightarrow> py_error + rat" where
  "unsigned_float s =
     (let ip = takeWhile is_digit s; r = dropWhile is_digit s in
      if ip = [] then Inl ValueError
      else if r = [] then Inr (of_int (digits_val ip))
      else if hd r = CHR ''.'' \<and> all_digits (tl r)
        then Inr (of_int (digits_val ip) + of_int (digits_val (tl r)) / 10 ^ length (tl r))
      else Inl ValueError)"

definition py_float :: "string \<Rightarrow> py_error + rat" where
  "py_float s =
     (case strip s of
        [] \<Rightarrow> Inl ValueError
      | c # cs \<Rightarrow>
          if c = CHR ''-'' then (case unsigned_float cs of Inl e \<Rightarrow> Inl e | Inr v \<Rightarrow> Inr (- v))
          else if c = CHR ''+'' then unsigned_float cs
          else unsigned_float (c # cs))"

text \<open>Sequencing of computations that may raise.\<close>

definition bind_err :: "py_error + 'a \<Rightarrow> ('a \<Rightarrow> py_error + 'b) \<Rightarrow> py_error + 'b" where
  "bind_err m f = (case m of Inl e \<Rightarrow> Inl e | Inr x \<Rightarrow> f x)"

fun map_err :: "('a \<Rightarrow> py_error + 'b) \<Rightarrow> 'a list \<Rightarrow> py_error + 'b list" where
  "map_err f [] = Inr []"
| "map_err f (x # xs) =
     bind_err (f x) (\<lambda>y. bind_err (map_err f xs) (\<lambda>ys. Inr (y # ys)))"

text \<open>\<^verbatim>\<open>round(x, 1)\<close>: the nearest tenth, a tie going to the even tenth.\<close>

definition round1 :: "rat \<Rightarrow> rat" where
  "round1 x =
     (let n = \<lfloor>x * 10\<rfloor>; f = x * 10 - of_int n in
      if f < 1 / 2 then of_int n / 10
      else if 1 / 2 < f then of_int (n + 1) / 10
      else if even n then of_int n / 10 else of_int (n + 1) / 10)"

text \<open>
  Converting an \<^verbatim>\<open>int\<close> to \<^verbatim>\<open>float\<close> (as \<^verbatim>\<open>int * float\<close> does) raises
  \<^verbatim>\<open>OverflowError\<close> when the integer rounds to \<open>2 ^ 1024\<close> or more.
\<close>

definition int_to_float :: "int \<Rightarrow> py_error + rat" where
  "int_to_float n = (if 2 ^ 1024 - 2 ^ 970 \<le> \<bar>n\<bar> then Inl OverflowError else Inr (of_int n))"

subsection \<open>Dates\<close>

definition is_leap :: "int \<Rightarrow> bool" where
  "is_leap y = (y mod 4 = 0 \<and> (y mod 100 \<noteq> 0 \<or> y mod 400 = 0))"

definition days_in_month :: "int \<Rightarrow> int \<Rightarrow> int" where
  "days_in_month y m =
     (if m = 2 then (if is_leap y then 29 else 28)
      else if m = 4 \<or> m = 6 \<or> m = 9 \<or> m = 11 then 30 else 31)"

text \<open>\<^verbatim>\<open>datetime.date(y, m, d)\<close>: \<^verbatim>\<open>ValueError\<close> outside the calendar.\<close>

definition valid_date :: "int \<Rightarrow> int \<Rightarrow> int \<Rightarrow> bool" where
  "valid_date y m d =
     (1 \<le> y \<and> y \<le> 9999 \<and> 1 \<le> m \<and> m \<le> 12 \<and> 1 \<le> d \<and> d \<le> days_in_month y m)"

definition py_date :: "int \<Rightarrow> int \<Rightarrow> int \<Rightarrow> py_error + date" where
  "py_date y m d =
     (if valid_date y m d then Inr \<lparr>year = y, month = m, day = d\<rparr> else Inl ValueError)"

text \<open>\<^verbatim>\<open>str(d)\<close> of a date is its ISO form \<^verbatim>\<open>YYYY-MM-DD\<close>.\<close>

definition date_str :: "date \<Rightarrow> string" where
  "date_str d =
     zero_pad 4 (nat (year d)) @ ''-'' @ zero_pad 2 (nat (month d)) @ ''-'' @ zero_pad 2 (nat (day d))"

text \<open>
  \<^verbatim>\<open>str(x)\<close> of a cell value. The text of a float is idealised (integer part, point,
  first fractional digit); no stage of the pipeline reads a float cell back.
\<close>

definition py_str :: "cell \<Rightarrow> string" where
  "py_str c =
     (case c of
        NA \<Rightarrow> ''None''
      | Str s \<Rightarrow> s
      | DateV d \<Rightarrow> date_str d
      | IntV i \<Rightarrow> show_int i
      | FloatV r \<Rightarrow> show_int \<lfloor>r\<rfloor> @ ''.'' @ [digit_char (nat (\<lfloor>\<bar>r\<bar> * 10\<rfloor>))]
      | BoolV b \<Rightarrow> (if b then ''True'' else ''False''))"

text \<open>
  The guard every parser starts with:
  \<^verbatim>\<open>if pd.isna(x) or not str(x).strip(): return <default>\<close>.
\<close>

definition is_blank :: "cell \<Rightarrow> bool" where
  "is_blank c = (c = NA \<or> strip (py_str c) = [])"


section \<open>The fragment of Python's \<^verbatim>\<open>re\<close> used by the parsers\<close>

text \<open>
  Every pattern of the program is built from single characters and character classes,
  greedy repetition of a class (\<^verbatim>\<open>\d+\<close>, \<^verbatim>\<open>\s*\<close>, \<^verbatim>\<open>\d{2,3}\<close>), sequence,
  alternation, an optional part, capturing groups and the word boundary \<^verbatim>\<open>\b\<close>.
  The matcher is the backtracking one of \<^verbatim>\<open>re\<close>: it returns the ways a pattern can
  match at a position in the order in which Python tries them, so the head of the list
  is the match Python reports.
\<close>

datatype regex =
    Chr "char \<Rightarrow> bool"
  | Rep nat "nat option" "char \<Rightarrow> bool"
  | Eps
  | Seq regex regex
  | Alt regex regex
  | Opt regex
  | Grp nat regex
  | WordB

text \<open>
  A matcher state: the character before the position (for \<^verbatim>\<open>\b\<close>), the text still to
  read, and the text of each group captured so far.
\<close>

record mstate =
  prev :: "char option"
  rest :: string
  groups :: "nat \<Rightarrow> string option"

fun consume :: "nat \<Rightarrow> mstate \<Rightarrow> mstate" where
  "consume 0 st = st"
| "consume (Suc n) st =
     (case rest st of
        [] \<Rightarrow> st
      | c # cs \<Rightarrow> consume n (st\<lparr>prev := Some c, rest := cs\<rparr>))"

definition at_boundary :: "mstate \<Rightarrow> bool" where
  "at_boundary st =
     ((case prev st of None \<Rightarrow> False | Some c \<Rightarrow> is_word c)
      \<noteq> (case rest st of [] \<Rightarrow> False | c # _ \<Rightarrow> is_word c))"

text \<open>Greedy repetition of a class: the longest run first, down to the minimum.\<close>

definition rep_counts :: "nat \<Rightarrow> nat option \<Rightarrow> (char \<Rightarrow> bool) \<Rightarrow> string \<Rightarrow> nat list" where
  "rep_counts lo hi p s =
     (let k = length (takeWhile p s);
          top = (case hi of None \<Rightarrow> k | Some h \<Rightarrow> min h k)
      in rev [lo ..< Suc top])"

primrec ms :: "regex \<Rightarrow> mstate \<Rightarrow> mstate list" where
  "ms (Chr p) st =
     (case rest st of
        [] \<Rightarrow> []
      | c # cs \<Rightarrow> if p c then [st\<lparr>prev := Some c, rest := cs\<rparr>] else [])"
| "ms (Rep lo hi p) st = map (\<lambda>n. consume n st) (rep_counts lo hi p (rest st))"
| "ms Eps st = [st]"
| "ms (Seq a b) st = concat (map (ms b) (ms a st))"
| "ms (Alt a b) st = ms a st @ ms b st"
| "ms (Opt a) st = ms a st @ [st]"
| "ms (Grp g a) st =
     map (\<lambda>st'. st'\<lparr>groups := (groups st')(g \<mapsto> take (length (rest st) - length (rest st')) (rest st))\<rparr>)
       (ms a st)"
| "ms WordB st = (if at_boundary st then [st] else [])"

text \<open>A literal string, case-sensitive or under \<^verbatim>\<open>re.IGNORECASE\<close>.\<close>

definition lit :: "string \<Rightarrow> regex" where
  "lit s = foldr (\<lambda>c r. Seq (Chr (\<lambda>x. x = c)) r) s Eps"

definition liti :: "string \<Rightarrow> regex" where
  "liti s = foldr (\<lambda>c r. Seq (Chr (\<lambda>x. lower_char x = lower_char c)) r) s Eps"

definition alts :: "regex list \<Rightarrow> regex" where
  "alts rs = foldr Alt rs (Chr (\<lambda>_. False))"

definition seqs :: "regex list \<Rightarrow> regex" where
  "seqs rs = foldr Seq rs Eps"

definition start_state :: "char option \<Rightarrow> string \<Rightarrow> mstate" where
  "start_state b s = \<lparr>prev = b, rest = s, groups = (\<lambda>_. None)\<rparr>"

text \<open>\<^verbatim>\<open>re.match\<close>: the first way the pattern matches at the start of the text.\<close>

definition re_match :: "regex \<Rightarrow> string \<Rightarrow> mstate option" where
  "re_match r s = (case ms r (start_state None s) of [] \<Rightarrow> None | st # _ \<Rightarrow> Some st)"

text \<open>
  \<^verbatim>\<open>re.search\<close>: the first match at the leftmost position that has one. The result is
  the text skipped before the match and the state at the end of the match.
\<close>

fun search_from :: "regex \<Rightarrow> char option \<Rightarrow> string \<Rightarrow> string \<Rightarrow> (string \<times> mstate) option" where
  "search_from r b skipped [] =
     (case ms r (start_state b []) of [] \<Rightarrow> None | st # _ \<Rightarrow> Some (skipped, st))"
| "search_from r b skipped (c # cs) =
     (case ms r (start_state b (c # cs)) of
        [] \<Rightarrow> search_from r (Some c) (skipped @ [c]) cs
      | st # _ \<Rightarrow> Some (skipped, st))"

definition re_search :: "regex \<Rightarrow> string \<Rightarrow> (nat \<Rightarrow> string option) option" where
  "re_search r s = map_option (\<lambda>(_, st). groups st) (search_from r None [] s)"

definition re_found :: "regex \<Rightarrow> string \<Rightarrow> bool" where
  "re_found r s = (search_from r None [] s \<noteq> None)"

text \<open>
  \<^verbatim>\<open>re.split\<close> and \<^verbatim>\<open>re.findall\<close> scan for successive matches, each search starting
  where the previous match ended. None of the program's patterns matches the empty
  string; a match that consumes nothing ends the scan here. The first argument bounds
  the number of matches by the length of the text.
\<close>

fun split_from :: "nat \<Rightarrow> regex \<Rightarrow> char option \<Rightarrow> string \<Rightarrow> string list" where
  "split_from 0 r b s = [s]"
| "split_from (Suc n) r b s =
     (case search_from r b [] s of
        None \<Rightarrow> [s]
      | Some (piece, st) \<Rightarrow>
          if length (rest st) < length s
          then piece # split_from n r (prev st) (rest st)
          else [s])"

definition re_split :: "regex \<Rightarrow> string \<Rightarrow> string list" where
  "re_split r s = split_from (length s) r None s"

fun findall_from :: "nat \<Rightarrow> regex \<Rightarrow> nat \<Rightarrow> char option \<Rightarrow> string \<Rightarrow> string list" where
  "findall_from 0 r g b s = []"
| "findall_from (Suc n) r g b s =
     (case search_from r b [] s of
        None \<Rightarrow> []
      | Some (_, st) \<Rightarrow>
          if length (rest st) < length s
          then (case groups st g of None \<Rightarrow> [] | Some w \<Rightarrow> [w]) @ findall_from n r g (prev st) (rest st)
          else [])"

text \<open>\<^verbatim>\<open>re.findall\<close> for a pattern with the single capturing group \<open>g\<close>.\<close>

definition re_findall :: "regex \<Rightarrow> nat \<Rightarrow> string \<Rightarrow> string list" where
  "re_findall r g s = findall_from (length s) r g None s"

abbreviation digits :: "nat \<Rightarrow> nat \<Rightarrow> regex" where
  "digits lo hi \<equiv> Rep lo (Some hi) is_digit"

abbreviation digits1 :: regex where
  "digits1 \<equiv> Rep 1 None is_digit"

abbreviation spaces0 :: regex where
  "spaces0 \<equiv> Rep 0 None is_space"

abbreviation spaces1 :: regex where
  "spaces1 \<equiv> Rep 1 None is_space"

section \<open>Dates: \<^verbatim>\<open>parse_date\<close>, \<^verbatim>\<open>compute_age\<close>, \<^verbatim>\<open>zodiac_sign\<close>\<close>

subsection \<open>\<^verbatim>\<open>datetime.strptime\<close> for the directives of \<^verbatim>\<open>date_formats\<close>\<close>

text \<open>
  \<^verbatim>\<open>strptime\<close> turns the format into a regular expression (\<^verbatim>\<open>_strptime.TimeRE\<close>),
  matches it case-insensitively at the start of the text and raises \<^verbatim>\<open>ValueError\<close>
  when it does not match or text remains. The month names are those of the C locale,
  in the order of the alternation \<^verbatim>\<open>TimeRE\<close> builds (longest first).
\<close>

definition month_names :: "string list" where
  "month_names = [''january'', ''february'', ''march'', ''april'', ''may'', ''june'', ''july'',
     ''august'', ''september'', ''october'', ''november'', ''december'']"

definition month_abbrs :: "string list" where
  "month_abbrs = map (take 3) month_names"

definition one_of :: "string \<Rightarrow> regex" where
  "one_of cs = Chr (\<lambda>x. x \<in> set cs)"

text \<open>Groups are named by the directive's letter.\<close>

definition grp :: "char \<Rightarrow> regex \<Rightarrow> regex" where
  "grp c r = Grp (of_char c) r"

definition directive :: "char \<Rightarrow> regex" where
  "directive c =
     (if c = CHR ''d'' then
        grp c (alts [Seq (lit ''3'') (one_of ''01''), Seq (one_of ''12'') (Chr is_digit),
                     Seq (lit ''0'') (one_of ''123456789''), one_of ''123456789'',
                     Seq (lit '' '') (one_of ''123456789'')])
      else if c = CHR ''m'' then
        grp c (alts [Seq (lit ''1'') (one_of ''012''), Seq (lit ''0'') (one_of ''123456789''),
                     one_of ''123456789''])
      else if c = CHR ''Y'' then grp c (digits 4 4)
      else if c = CHR ''y'' then grp c (digits 2 2)
      else if c = CHR ''B'' then
        grp c (alts (map liti [''september'', ''february'', ''november'', ''december'', ''january'',
                     ''october'', ''august'', ''march'', ''april'', ''june'', ''july'', ''may'']))
      else if c = CHR ''b'' then grp c (alts (map liti month_abbrs))
      else Chr (\<lambda>_. False))"

text \<open>
  The regular expression of a format: a directive \<^verbatim>\<open>%c\<close>, a run of white space
  (\<^verbatim>\<open>\s+\<close>), or a literal character.
\<close>

fun format_regex :: "string \<Rightarrow> regex" where
  "format_regex [] = Eps"
| "format_regex [c] = (if is_space c then spaces1 else liti [c])"
| "format_regex (c # d # cs) =
     (if c = CHR ''%'' then Seq (directive d) (format_regex cs)
      else if is_space c then (if is_space d then format_regex (d # cs) else Seq spaces1 (format_regex (d # cs)))
      else Seq (liti [c]) (format_regex (d # cs)))"

fun index_of :: "string \<Rightarrow> string list \<Rightarrow> int" where
  "index_of w [] = 0"
| "index_of w (x # xs) = (if w = x then 0 else 1 + index_of w xs)"

text \<open>
  The year of a match: \<^verbatim>\<open>%Y\<close> as it is; \<^verbatim>\<open>%y\<close> by the POSIX rule of
  \<^verbatim>\<open>_strptime\<close> (00 to 68 are 2000 to 2068, 69 to 99 are 1969 to 1999); 1900 without
  a year directive.
\<close>

definition found_year :: "(nat \<Rightarrow> string option) \<Rightarrow> int" where
  "found_year g =
     (case g (of_char CHR ''Y'') of
        Some w \<Rightarrow> digits_val w
      | None \<Rightarrow>
          (case g (of_char CHR ''y'') of
             Some w \<Rightarrow> (if digits_val w \<le> 68 then digits_val w + 2000 else digits_val w + 1900)
           | None \<Rightarrow> 1900))"

definition found_month :: "(nat \<Rightarrow> string option) \<Rightarrow> int" where
  "found_month g =
     (case g (of_char CHR ''m'') of
        Some w \<Rightarrow> digits_val w
      | None \<Rightarrow>
          (case g (of_char CHR ''B'') of
             Some w \<Rightarrow> 1 + index_of (lower w) month_names
           | None \<Rightarrow>
               (case g (of_char CHR ''b'') of
                  Some w \<Rightarrow> 1 + index_of (lower w) month_abbrs
                | None \<Rightarrow> 1)))"

definition found_day :: "(nat \<Rightarrow> string option) \<Rightarrow> int" where
  "found_day g =
     (case g (of_char CHR ''d'') of
        Some w \<Rightarrow> digits_val (dropWhile is_space w)
      | None \<Rightarrow> 1)"

definition strptime :: "string \<Rightarrow> string \<Rightarrow> py_error + date" where
  "strptime text fmt =
     (case re_match (format_regex fmt) text of
        None \<Rightarrow> Inl ValueError
      | Some st \<Rightarrow>
          if rest st \<noteq> [] then Inl ValueError
          else py_date (found_year (groups st)) (found_month (groups st)) (found_day (groups st)))"

subsection \<open>\<^verbatim>\<open>parse_date\<close>\<close>

definition parse_date_with_format :: "string \<Rightarrow> string \<Rightarrow> py_error + date option" where
  "parse_date_with_format text fmt =
     (case strptime text fmt of
        Inr d \<Rightarrow> Inr (Some d)
      | Inl ValueError \<Rightarrow> Inr None
      | Inl e \<Rightarrow> Inl e)"

text \<open>
  \<^verbatim>\<open>_parse_date_with_regex\<close>: \<^verbatim>\<open>len(str(year)) == 2\<close> holds for the years 10 to 99;
  the \<^verbatim>\<open>ValueError\<close> of \<^verbatim>\<open>date(...)\<close> is caught and gives \<^verbatim>\<open>None\<close>.
\<close>

text \<open>\<^verbatim>\<open>int(groups[i])\<close> and \<^verbatim>\<open>float(m.group(i))\<close>; a group that took no part is \<^verbatim>\<open>None\<close>.\<close>

definition int_group :: "(nat \<Rightarrow> string option) \<Rightarrow> nat \<Rightarrow> py_error + int" where
  "int_group g i = (case g i of None \<Rightarrow> Inl TypeError | Some w \<Rightarrow> py_int w)"

definition float_group :: "(nat \<Rightarrow> string option) \<Rightarrow> nat \<Rightarrow> py_error + rat" where
  "float_group g i = (case g i of None \<Rightarrow> Inl TypeError | Some w \<Rightarrow> py_float w)"

definition parse_date_with_regex :: "string \<Rightarrow> regex \<Rightarrow> nat \<Rightarrow> nat \<Rightarrow> nat \<Rightarrow> py_error + date option" where
  "parse_date_with_regex text pattern year_group month_group day_group =
     (case re_search pattern text of
        None \<Rightarrow> Inr None
      | Some g \<Rightarrow>
          (case
             bind_err (int_group g year_group) (\<lambda>y0.
               let y = (if length (show_int y0) = 2 then y0 + (if y0 > 25 then 1900 else 2000) else y0)
               in bind_err (int_group g month_group) (\<lambda>m.
                    bind_err (int_group g day_group) (\<lambda>d. py_date y m d)))
           of
             Inr d \<Rightarrow> Inr (Some d)
           | Inl ValueError \<Rightarrow> Inr None
           | Inl e \<Rightarrow> Inl e))"

definition date_formats :: "string list" where
  "date_formats = [''%B %d, %Y'', ''%b %d, %Y'', ''%m/%d/%Y'', ''%m/%d/%y'', ''%Y-%m-%d'',
     ''%d %B %Y'', ''%d %b %Y'']"

text \<open>\<^verbatim>\<open>\b(\d{4})-(\d{1,2})-(\d{1,2})\b\<close> and \<^verbatim>\<open>\b(\d{1,2})/(\d{1,2})/(\d{2,4})\b\<close>.\<close>

definition iso_pattern :: regex where
  "iso_pattern = seqs [WordB, Grp 0 (digits 4 4), lit ''-'', Grp 1 (digits 1 2), lit ''-'',
     Grp 2 (digits 1 2), WordB]"

definition slash_pattern :: regex where
  "slash_pattern = seqs [WordB, Grp 0 (digits 1 2), lit ''/'', Grp 1 (digits 1 2), lit ''/'',
     Grp 2 (digits 2 4), WordB]"

definition date_patterns :: "(regex \<times> nat \<times> nat \<times> nat) list" where
  "date_patterns = [(iso_pattern, 0, 1, 2), (slash_pattern, 2, 0, 1)]"

text \<open>
  The two loops of \<^verbatim>\<open>parse_date\<close>: the first candidate that gives a date is
  returned; an exception a candidate lets through ends the loop.
\<close>

fun first_date :: "('a \<Rightarrow> py_error + date option) \<Rightarrow> 'a list \<Rightarrow> py_error + date option" where
  "first_date f [] = Inr None"
| "first_date f (x # xs) =
     (case f x of
        Inl e \<Rightarrow> Inl e
      | Inr (Some d) \<Rightarrow> Inr (Some d)
      | Inr None \<Rightarrow> first_date f xs)"

definition parse_date :: "cell \<Rightarrow> py_error + date option" where
  "parse_date c =
     (if is_blank c then Inr None
      else let text = strip (py_str c) in
        case first_date (parse_date_with_format text) date_formats of
          Inl e \<Rightarrow> Inl e
        | Inr (Some d) \<Rightarrow> Inr (Some d)
        | Inr None \<Rightarrow>
            first_date (\<lambda>(pattern, yg, mg, dg). parse_date_with_regex text pattern yg mg dg)
              date_patterns)"

subsection \<open>\<^verbatim>\<open>compute_age\<close> and \<^verbatim>\<open>zodiac_sign\<close>\<close>

definition TODAY :: date where
  "TODAY = \<lparr>year = 2025, month = 10, day = 21\<rparr>"

definition compute_age :: "date option \<Rightarrow> date \<Rightarrow> int option" where
  "compute_age birth_date ref_date =
     (case birth_date of
        None \<Rightarrow> None
      | Some b \<Rightarrow>
          (let years0 = year ref_date - year b;
               years = (if month ref_date < month b \<or> (month ref_date = month b \<and> day ref_date < day b)
                        then years0 - 1 else years0)
           in if years \<ge> 0 then Some years else None))"

definition zodiac_ranges :: "(((int \<times> int) \<times> (int \<times> int)) option \<times> string) list" where
  "zodiac_ranges =
     [(Some ((1, 20), (2, 18)), ''Aquarius''),
      (Some ((2, 19), (3, 20)), ''Pisces''),
      (Some ((3, 21), (4, 19)), ''Aries''),
      (Some ((4, 20), (5, 20)), ''Taurus''),
      (Some ((5, 21), (6, 20)), ''Gemini''),
      (Some ((6, 21), (7, 22)), ''Cancer''),
      (Some ((7, 23), (8, 22)), ''Leo''),
      (Some ((8, 23), (9, 22)), ''Virgo''),
      (Some ((9, 23), (10, 22)), ''Libra''),
      (Some ((10, 23), (11, 21)), ''Scorpio''),
      (Some ((11, 22), (12, 21)), ''Sagittarius''),
      (None, ''Capricorn'')]"

text \<open>The test of the loop for an entry with a range.\<close>

definition in_sign_range :: "int \<Rightarrow> int \<Rightarrow> ((int \<times> int) \<times> (int \<times> int)) option \<times> string \<Rightarrow> bool" where
  "in_sign_range m d entry =
     (case fst entry of
        None \<Rightarrow> False
      | Some (start, end) \<Rightarrow> (m = fst start \<and> d \<ge> snd start) \<or> (m = fst end \<and> d \<le> snd end))"

fun zodiac_loop :: "int \<Rightarrow> int \<Rightarrow> (((int \<times> int) \<times> (int \<times> int)) option \<times> string) list \<Rightarrow> string option" where
  "zodiac_loop m d [] = None"
| "zodiac_loop m d ((None, sign) # rs) = Some sign"
| "zodiac_loop m d ((Some (start, end), sign) # rs) =
     (if (m = fst start \<and> d \<ge> snd start) \<or> (m = fst end \<and> d \<le> snd end) then Some sign
      else zodiac_loop m d rs)"

definition sign_names :: "string list" where
  "sign_names = [''Aquarius'', ''Pisces'', ''Aries'', ''Taurus'', ''Gemini'', ''Cancer'', ''Leo'',
     ''Virgo'', ''Libra'', ''Scorpio'', ''Sagittarius'', ''Capricorn'']"

definition zodiac_sign :: "date option \<Rightarrow> string option" where
  "zodiac_sign birth_date =
     (case birth_date of
        None \<Rightarrow> None
      | Some b \<Rightarrow> zodiac_loop (month b) (day b) zodiac_ranges)"

section \<open>Measurements: \<^verbatim>\<open>parse_height_to_cm\<close>, \<^verbatim>\<open>parse_weight_to_kg\<close>\<close>

text \<open>A number with an optional fraction, \<^verbatim>\<open>\d{lo,hi}(?:\.\d+)?\<close>.\<close>

definition number :: "nat \<Rightarrow> nat option \<Rightarrow> regex" where
  "number lo hi = Seq (Rep lo hi is_digit) (Opt (Seq (lit ''.'') digits1))"

text \<open>\<^verbatim>\<open>(\d{2,3}(?:\.\d+)?)\s*cm\b\<close>\<close>

definition cm_pattern :: regex where
  "cm_pattern = seqs [Grp 1 (number 2 (Some 3)), spaces0, lit ''cm'', WordB]"

text \<open>\<^verbatim>\<open>(\d(?:\.\d{1,2})?)\s*m\b\<close>\<close>

definition m_pattern :: regex where
  "m_pattern = seqs [Grp 1 (Seq (Chr is_digit) (Opt (Seq (lit ''.'') (digits 1 2)))), spaces0,
     lit ''m'', WordB]"

text \<open>\<^verbatim>\<open>(\d{2,3}(?:\.\d+)?)\s*(?:in|inch|inches|")\b\<close>\<close>

definition in_pattern :: regex where
  "in_pattern = seqs [Grp 1 (number 2 (Some 3)), spaces0,
     alts [lit ''in'', lit ''inch'', lit ''inches'', lit [CHR 0x22]], WordB]"

text \<open>\<^verbatim>\<open>\bft|foot|feet|\'\b\<close>\<close>

definition feet_word_pattern :: regex where
  "feet_word_pattern = alts [Seq WordB (lit ''ft''), lit ''foot'', lit ''feet'',
     Seq (lit [CHR 0x27]) WordB]"

text \<open>\<^verbatim>\<open>(?:(\d+)\s*(?:ft|foot|feet|\' ))\s*(\d{1,2})?\<close> and \<^verbatim>\<open>(\d+)\s*\'\s*(\d{1,2})?\<close>\<close>

definition ft_in_pattern1 :: regex where
  "ft_in_pattern1 = seqs [Grp 1 digits1, spaces0,
     alts [lit ''ft'', lit ''foot'', lit ''feet'', lit [CHR 0x27, CHR '' '']], spaces0,
     Opt (Grp 2 (digits 1 2))]"

definition ft_in_pattern2 :: regex where
  "ft_in_pattern2 = seqs [Grp 1 digits1, spaces0, lit [CHR 0x27], spaces0, Opt (Grp 2 (digits 1 2))]"

text \<open>\<^verbatim>\<open>(\d{1,3}(?:\.\d+)?)\<close>\<close>

definition num_pattern :: regex where
  "num_pattern = Grp 1 (number 1 (Some 3))"

text \<open>
  Each \<^verbatim>\<open>if\<close> block of \<^verbatim>\<open>parse_height_to_cm\<close>, on the lowered and stripped text:
  \<open>Inr (Some v)\<close> when the block returns \<open>v\<close>, \<open>Inr None\<close> when control falls through to
  the next block, \<open>Inl e\<close> when it raises.
\<close>

definition height_cm :: "string \<Rightarrow> py_error + rat option" where
  "height_cm s =
     (case re_search cm_pattern s of
        None \<Rightarrow> Inr None
      | Some g \<Rightarrow> bind_err (float_group g 1) (\<lambda>v. Inr (Some v)))"

definition height_m :: "string \<Rightarrow> py_error + rat option" where
  "height_m s =
     (case re_search m_pattern s of
        None \<Rightarrow> Inr None
      | Some g \<Rightarrow>
          bind_err (float_group g 1) (\<lambda>val_m.
            if 13 / 10 \<le> val_m \<and> val_m \<le> 25 / 10 then Inr (Some (round1 (val_m * 100)))
            else Inr None))"

definition height_in :: "string \<Rightarrow> py_error + rat option" where
  "height_in s =
     (case re_search in_pattern s of
        None \<Rightarrow> Inr None
      | Some g \<Rightarrow>
          if \<not> re_found feet_word_pattern s
          then bind_err (float_group g 1) (\<lambda>v. Inr (Some (round1 (v * (254 / 100)))))
          else Inr None)"

definition height_ft_in :: "string \<Rightarrow> py_error + rat option" where
  "height_ft_in s =
     (case (case re_search ft_in_pattern1 s of Some g \<Rightarrow> Some g | None \<Rightarrow> re_search ft_in_pattern2 s) of
        None \<Rightarrow> Inr None
      | Some g \<Rightarrow>
          bind_err (int_group g 1) (\<lambda>ft.
            bind_err (case g 2 of None \<Rightarrow> Inr 0 | Some w \<Rightarrow> py_int w) (\<lambda>inch.
              bind_err (int_to_float (ft * 12 + inch)) (\<lambda>v.
                Inr (Some (round1 (v * (254 / 100))))))))"

definition height_num :: "string \<Rightarrow> py_error + rat option" where
  "height_num s =
     (case re_search num_pattern s of
        None \<Rightarrow> Inr None
      | Some g \<Rightarrow>
          bind_err (float_group g 1) (\<lambda>val.
            if 50 \<le> val \<and> val \<le> 90 then Inr (Some (round1 (val * (254 / 100))))
            else if 14 / 10 \<le> val \<and> val \<le> 25 / 10 then Inr (Some (round1 (val * 100)))
            else if 140 \<le> val \<and> val \<le> 230 then Inr (Some (round1 val))
            else Inr None))"

definition parse_height_to_cm :: "cell \<Rightarrow> py_error + rat option" where
  "parse_height_to_cm height =
     (if is_blank height then Inr None
      else let s = strip (lower (py_str height)) in
        case height_cm s of Inl e \<Rightarrow> Inl e | Inr (Some v) \<Rightarrow> Inr (Some v) | Inr None \<Rightarrow>
        (case height_m s of Inl e \<Rightarrow> Inl e | Inr (Some v) \<Rightarrow> Inr (Some v) | Inr None \<Rightarrow>
        (case height_in s of Inl e \<Rightarrow> Inl e | Inr (Some v) \<Rightarrow> Inr (Some v) | Inr None \<Rightarrow>
        (case height_ft_in s of Inl e \<Rightarrow> Inl e | Inr (Some v) \<Rightarrow> Inr (Some v) | Inr None \<Rightarrow>
         height_num s))))"

text \<open>
  The specification's reading of the height parser: an ordered list of rules, the first
  rule that produces a value (or raises) decides, and no later rule is consulted.
\<close>

fun first_rule_wins :: "(string \<Rightarrow> py_error + rat option) list \<Rightarrow> string \<Rightarrow> py_error + rat option" where
  "first_rule_wins [] s = Inr None"
| "first_rule_wins (rule # rules) s =
     (case rule s of
        Inr None \<Rightarrow> first_rule_wins rules s
      | outcome \<Rightarrow> outcome)"

definition height_rules :: "(string \<Rightarrow> py_error + rat option) list" where
  "height_rules = [height_cm, height_m, height_in, height_ft_in, height_num]"

text \<open>\<^verbatim>\<open>(\d+(?:\.\d+)?)\s*kg\b\<close> and \<^verbatim>\<open>(\d+(?:\.\d+)?)\<close>\<close>

definition kg_pattern :: regex where
  "kg_pattern = seqs [Grp 1 (number 1 None), spaces0, lit ''kg'', WordB]"

definition lb_pattern :: regex where
  "lb_pattern = Grp 1 (number 1 None)"

definition parse_weight_to_kg :: "cell \<Rightarrow> py_error + rat option" where
  "parse_weight_to_kg weight =
     (if is_blank weight then Inr None
      else let s = lower (py_str weight); m_kg = re_findall kg_pattern 1 s in
        if m_kg \<noteq> [] then
          bind_err (map_err py_float m_kg) (\<lambda>vals.
            Inr (Some (round1 (sum_list vals / of_nat (length vals)))))
        else let nums = re_findall lb_pattern 1 s in
          if nums \<noteq> [] then
            bind_err (map_err py_float nums) (\<lambda>vals.
              let val_lb = (if length vals \<ge> 2
                            then (fold min (tl vals) (hd vals) + fold max (tl vals) (hd vals)) / 2
                            else hd vals)
              in Inr (Some (round1 (val_lb * (45359237 / 100000000)))))
          else Inr None)"

section \<open>Text fields: aliases, languages, hair colour, marks, caution\<close>

text \<open>\<^verbatim>\<open>s.replace(old, new)\<close> for a non-empty \<open>old\<close>.\<close>

function py_replace :: "string \<Rightarrow> string \<Rightarrow> string \<Rightarrow> string" where
  "py_replace old new s =
     (if s = [] then []
      else if old \<noteq> [] \<and> starts_with old s then new @ py_replace old new (drop (length old) s)
      else hd s # py_replace old new (tl s))"
  by pat_completeness auto
termination
  by (relation "measure (\<lambda>(old, new, s). length s)") auto

declare py_replace.simps [simp del]

text \<open>\<^verbatim>\<open>(?:\saka\s|\s*\|\s*|,\s*|;\s*|\n+)\<close> under \<^verbatim>\<open>re.IGNORECASE\<close>\<close>

definition alias_pattern :: regex where
  "alias_pattern = alts
     [seqs [Chr is_space, liti ''aka'', Chr is_space],
      seqs [spaces0, lit ''|'', spaces0],
      seqs [lit '','', spaces0],
      seqs [lit '';'', spaces0],
      Rep 1 None (\<lambda>c. c = CHR 0x0A)]"

definition alias_stoplist :: "string list" where
  "alias_stoplist = [''-'', ''None'', ''N/A'', ''n/a'']"

definition count_aliases :: "cell \<Rightarrow> nat" where
  "count_aliases text =
     (if is_blank text then 0
      else let s = py_replace ''a/k/a'' ''aka'' (strip (py_str text));
               parts = re_split alias_pattern s
           in length (map strip (filter (\<lambda>p. p \<noteq> [] \<and> strip p \<notin> set alias_stoplist) parts)))"

text \<open>\<^verbatim>\<open>[,;/]|\s+and\s+\<close> under \<^verbatim>\<open>re.IGNORECASE\<close>\<close>

definition language_pattern :: regex where
  "language_pattern = Alt (one_of '',;/'') (seqs [spaces1, liti ''and'', spaces1])"

definition split_languages :: "cell \<Rightarrow> string option \<times> string option \<times> string option" where
  "split_languages text =
     (if is_blank text then (None, None, None)
      else let languages = filter (\<lambda>l. l \<noteq> []) (map strip (re_split language_pattern (strip (py_str text))))
           in (if length languages > 0 then Some (languages ! 0) else None,
               if length languages > 1 then Some (languages ! 1) else None,
               if length languages > 2 then Some (languages ! 2) else None))"

text \<open>\<^verbatim>\<open>[/\(]|\s+and\s+\<close> under \<^verbatim>\<open>re.IGNORECASE\<close>\<close>

definition hair_pattern :: regex where
  "hair_pattern = Alt (one_of ''/('') (seqs [spaces1, liti ''and'', spaces1])"

definition extract_first_hair_color :: "cell \<Rightarrow> string option" where
  "extract_first_hair_color hair =
     (if is_blank hair then None
      else let hair_clean = strip (hd (re_split hair_pattern (strip (py_str hair))))
           in if hair_clean \<noteq> [] then Some hair_clean else None)"

text \<open>
  The patterns of \<^verbatim>\<open>scar_keywords\<close>, in order: \<^verbatim>\<open>\btattoo|ink\b\<close>,
  \<^verbatim>\<open>\bscar(s)?\b\<close>, \<^verbatim>\<open>\bpierc(ed|ing|ings)\b\<close>, \<^verbatim>\<open>\bburn(ed|s| mark)\b\<close>,
  \<^verbatim>\<open>\bmissing\s+finger(s)?\b\<close>, \<^verbatim>\<open>\bfreckle(s)?\b\<close>, \<^verbatim>\<open>\bmole\b\<close>,
  \<^verbatim>\<open>\bbirthmark\b\<close>.
\<close>

definition scar_keywords :: "regex list" where
  "scar_keywords =
     [Alt (Seq WordB (lit ''tattoo'')) (Seq (lit ''ink'') WordB),
      seqs [WordB, lit ''scar'', Opt (Grp 1 (lit ''s'')), WordB],
      seqs [WordB, lit ''pierc'', Grp 1 (alts [lit ''ed'', lit ''ing'', lit ''ings'']), WordB],
      seqs [WordB, lit ''burn'', Grp 1 (alts [lit ''ed'', lit ''s'', lit '' mark'']), WordB],
      seqs [WordB, lit ''missing'', spaces1, lit ''finger'', Opt (Grp 1 (lit ''s'')), WordB],
      seqs [WordB, lit ''freckle'', Opt (Grp 1 (lit ''s'')), WordB],
      seqs [WordB, lit ''mole'', WordB],
      seqs [WordB, lit ''birthmark'', WordB]]"

definition detect_scars_marks :: "cell \<Rightarrow> bool" where
  "detect_scars_marks text =
     (if is_blank text then False
      else let s = lower (py_str text) in list_ex (\<lambda>pattern. re_found pattern s) scar_keywords)"

text \<open>\<^verbatim>\<open>\$\s*[\d,]+(?:\.\d{1,2})?\<close>\<close>

definition dollar_pattern :: regex where
  "dollar_pattern = seqs [lit ''$'', spaces0, Rep 1 None (\<lambda>c. is_digit c \<or> c = CHR '',''),
     Opt (Seq (lit ''.'') (digits 1 2))]"

definition detect_dollar_amounts :: "cell \<Rightarrow> bool" where
  "detect_dollar_amounts text =
     (if is_blank text then False else re_found dollar_pattern (py_str text))"

section \<open>Classifiers: \<^verbatim>\<open>categorize_occupation\<close>, \<^verbatim>\<open>extract_country_from_birth_place\<close>\<close>

text \<open>The dictionaries keep their insertion order, which the loops follow.\<close>

definition OCCUPATION_KEYWORDS :: "(string \<times> string list) list" where
  "OCCUPATION_KEYWORDS =
     [(''Military/Intelligence'',
        [''officer'', ''gru'', ''intelligence'', ''military'', ''fsb'', ''security service'', ''syrian air force'', ''army'', ''navy'', ''marine'', ''directorate'', ''general staff'']),
      (''Medical'',
        [''doctor'', ''surgeon'', ''physician'', ''nurse'', ''nursing'', ''therapist'', ''cardiologist'', ''medical'', ''catheter'', ''respiratory'', ''chiropractor'', ''acupuncturist'', ''chemist'', ''pharmaceutical'']),
      (''IT/Technology'',
        [''it worker'', ''software'', ''programmer'', ''developer'', ''engineer'', ''computer'', ''network'', ''blockchain'', ''backend'', ''zksnark'', ''technology'', ''web'']),
      (''Construction'',
        [''construction'', ''carpenter'', ''welder'', ''electrician'', ''plumber'', ''mason'', ''painter'', ''handyman'', ''builder'', ''contractor'', ''tractor driver'', ''floor sander'']),
      (''Transportation'',
        [''driver'', ''truck'', ''taxi'', ''cab'', ''mechanic'', ''aviation'', ''pilot'', ''shipping'', ''boat'', ''ship'']),
      (''Food Service'',
        [''cook'', ''chef'', ''waiter'', ''restaurant'', ''food service'', ''kitchen'']),
      (''Business/Management'',
        [''ceo'', ''president'', ''director'', ''manager'', ''executive'', ''businessman'', ''entrepreneur'', ''owner'', ''operator'', ''consultant'']),
      (''Finance/Trading'',
        [''broker'', ''trader'', ''commodities'', ''investment'', ''banking'', ''finance'', ''advisor'', ''asset manager'']),
      (''Government'',
        [''government'', ''official'', ''diplomat'', ''service officer'', ''taxation'', ''commission'', ''delegation'']),
      (''Law Enforcement'',
        [''police'', ''constable'', ''dispatcher'', ''security'', ''law enforcement'']),
      (''Agriculture'',
        [''farm'', ''agriculture'', ''laborer'', ''migrant'', ''seed'', ''rice'', ''landscaping'']),
      (''Sales/Retail'',
        [''sales'', ''salesman'', ''retail'', ''store'', ''clerk'', ''dealer'']),
      (''Trade/Manufacturing'',
        [''warehouse'', ''factory'', ''manufacturing'', ''production'', ''textile'', ''procurement'', ''arms broker'']),
      (''Religious'',
        [''priest'', ''pastor'', ''religious'', ''clergy'', ''minister'']),
      (''Services'',
        [''massage'', ''nail technician'', ''barber'', ''salon'', ''spa'']),
      (''Education/Research'',
        [''teacher'', ''professor'', ''researcher'', ''education'', ''academic'']),
      (''Emergency Services'',
        [''fireman'', ''firefighter'', ''paramedic'', ''emt'', ''rescue'']),
      (''Entertainment'',
        [''recording studio'', ''amusement'', ''arcade'', ''game'']),
      (''Unknown'',
        [''unknown'', ''unemployed'', ''none'', ''n/a''])]"

text \<open>
  The nested loop of \<^verbatim>\<open>categorize_occupation\<close>: the first category, in table order,
  one of whose keywords occurs in the lowered text.
\<close>

fun occupation_loop :: "(string \<times> string list) list \<Rightarrow> string \<Rightarrow> string" where
  "occupation_loop [] text_lower = ''Other''"
| "occupation_loop ((category, keywords) # table) text_lower =
     (if list_ex (\<lambda>keyword. py_in (lower keyword) text_lower) keywords then category
      else occupation_loop table text_lower)"

text \<open>
  The specification's test: a keyword of the entry occurs in the text as a substring,
  letter case ignored.
\<close>

definition occurs_ci :: "string \<Rightarrow> string \<Rightarrow> bool" where
  "occurs_ci keyword text = py_in (lower keyword) (lower text)"

definition category_matches :: "string \<Rightarrow> string \<times> string list \<Rightarrow> bool" where
  "category_matches text entry = list_ex (\<lambda>keyword. occurs_ci keyword text) (snd entry)"

definition keywords_of :: "string \<Rightarrow> string list" where
  "keywords_of category = (case map_of OCCUPATION_KEYWORDS category of Some ks \<Rightarrow> ks | None \<Rightarrow> [])"

definition categorize_occupation :: "cell \<Rightarrow> string" where
  "categorize_occupation text =
     (if is_blank text then ''Unknown''
      else occupation_loop OCCUPATION_KEYWORDS (lower (py_str text)))"

definition BIRTH_PLACE_MAPPING :: "(string \<times> string option \<times> string option) list" where
  "BIRTH_PLACE_MAPPING =
     [(''Los Angeles, California'', (Some ''United States'', Some ''USA'')),
      (''Pasadena, California'', (Some ''United States'', Some ''USA'')),
      (''Arcadia, California'', (Some ''United States'', Some ''USA'')),
      (''Sacramento, California'', (Some ''United States'', Some ''USA'')),
      (''San Francisco, California'', (Some ''United States'', Some ''USA'')),
      (''Fresno, California'', (Some ''United States'', Some ''USA'')),
      (''California'', (Some ''United States'', Some ''USA'')),
      (''Brooklyn, New York'', (Some ''United States'', Some ''USA'')),
      (''New York City, New York'', (Some ''United States'', Some ''USA'')),
      (''New York'', (Some ''United States'', Some ''USA'')),
      (''El Paso, Texas'', (Some ''United States'', Some ''USA'')),
      (''Memphis, Tennessee'', (Some ''United States'', Some ''USA'')),
      (''Mobile, Alabama'', (Some ''United States'', Some ''USA'')),
      (''Selma, Alabama'', (Some ''United States'', Some ''USA'')),
      (''Alabama'', (Some ''United States'', Some ''USA'')),
      (''Springfield, Illinois'', (Some ''United States'', Some ''USA'')),
      (''Olney, Illinois'', (Some ''United States'', Some ''USA'')),
      (''Illinois'', (Some ''United States'', Some ''USA'')),
      (''Detroit, Michigan'', (Some ''United States'', Some ''USA'')),
      (''Michigan, USA'', (Some ''United States'', Some ''USA'')),
      (''Miami, Florida'', (Some ''United States'', Some ''USA'')),
      (''Florida'', (Some ''United States'', Some ''USA'')),
      (''New Jersey'', (Some ''United States'', Some ''USA'')),
      (''Virginia'', (Some ''United States'', Some ''USA'')),
      (''Oregon'', (Some ''United States'', Some ''USA'')),
      (''Pennsylvania'', (Some ''United States'', Some ''USA'')),
      (''North Dakota'', (Some ''United States'', Some ''USA'')),
      (''Louisiana'', (Some ''United States'', Some ''USA'')),
      (''Massachusetts'', (Some ''United States'', Some ''USA'')),
      (''Hawaii'', (Some ''United States'', Some ''USA'')),
      (''Idaho'', (Some ''United States'', Some ''USA'')),
      (''Ohio'', (Some ''United States'', Some ''USA'')),
      (''Wadesboro, North Carolina'', (Some ''United States'', Some ''USA'')),
      (''Washington, DC'', (Some ''United States'', Some ''USA'')),
      (''Wayne, Pennsylvania'', (Some ''United States'', Some ''USA'')),
      (''Hunan Province, China'', (Some ''China'', Some ''CHN'')),
      (''Liaoning, China'', (Some ''China'', Some ''CHN'')),
      (''Hangzhou, Zhejiang Province, China'', (Some ''China'', Some ''CHN'')),
      (''Heilongjiang, China'', (Some ''China'', Some ''CHN'')),
      (''Wusu, Xinjiang, China'', (Some ''China'', Some ''CHN'')),
      (''Anhui, China'', (Some ''China'', Some ''CHN'')),
      (''Tacheng, Xinjiang, China or Urumqi, Xinjiang, China'', (Some ''China'', Some ''CHN'')),
      (''Shaanxi, China'', (Some ''China'', Some ''CHN'')),
      (''Shandong, China'', (Some ''China'', Some ''CHN'')),
      (''Shanghai, China'', (Some ''China'', Some ''CHN'')),
      (''Weifang, Shandong, China'', (Some ''China'', Some ''CHN'')),
      (''Zhejiang, China'', (Some ''China'', Some ''CHN'')),
      (''China'', (Some ''China'', Some ''CHN'')),
      (''People's Republic of China'', (Some ''China'', Some ''CHN'')),
      (''Chelyabinskaya Oblast, Russia'', (Some ''Russia'', Some ''RUS'')),
      (''Tver, Russia'', (Some ''Russia'', Some ''RUS'')),
      (''Stavropol, Russia'', (Some ''Russia'', Some ''RUS'')),
      (''Novocherkask, Russia'', (Some ''Russia'', Some ''RUS'')),
      (''Volzhskiy, Volgogradskaya Oblast, Russia'', (Some ''Russia'', Some ''RUS'')),
      (''Saint Petersburg, Russia'', (Some ''Russia'', Some ''RUS'')),
      (''Murmanskaya Oblast, Russia'', (Some ''Russia'', Some ''RUS'')),
      (''Sosnovka, Russia'', (Some ''Russia'', Some ''RUS'')),
      (''Moscow, Russia'', (Some ''Russia'', Some ''RUS'')),
      (''Village of Fenino, Serpukhovskoy District, Moscow Oblast, Russia'', (Some ''Russia'', Some ''RUS'')),
      (''Totma, Vologda Oblast, Russia'', (Some ''Russia'', Some ''RUS'')),
      (''Tymovskoye, Russia'', (Some ''Russia'', Some ''RUS'')),
      (''Leningrad, Russia'', (Some ''Russia'', Some ''RUS'')),
      (''Kaluga, Russia'', (Some ''Russia'', Some ''RUS'')),
      (''City of Syktyvkar, Russia'', (Some ''Russia'', Some ''RUS'')),
      (''Ramenskoye, Russia'', (Some ''Russia'', Some ''RUS'')),
      (''Grozny, Chechnya, Russia'', (Some ''Russia'', Some ''RUS'')),
      (''Rostov-On-Don, Russia'', (Some ''Russia'', Some ''RUS'')),
      (''Khaborovsk, Russia'', (Some ''Russia'', Some ''RUS'')),
      (''Obninsk, Kaluga Oblast, Russia'', (Some ''Russia'', Some ''RUS'')),
      (''Vologda, Russia'', (Some ''Russia'', Some ''RUS'')),
      (''Bratsk, Irkutsk Oblast, Russia'', (Some ''Russia'', Some ''RUS'')),
      (''Kursk, Russia'', (Some ''Russia'', Some ''RUS'')),
      (''Yoshkar-Ola, Russia'', (Some ''Russia'', Some ''RUS'')),
      (''Stavropolskiy Kraya, Russia'', (Some ''Russia'', Some ''RUS'')),
      (''Bologoe-4, Kalininskiy Oblast, Russia'', (Some ''Russia'', Some ''RUS'')),
      (''Russia'', (Some ''Russia'', Some ''RUS'')),
      (''Russian Federation'', (Some ''Russia'', Some ''RUS'')),
      (''Zabol, Iran'', (Some ''Iran'', Some ''IRN'')),
      (''Tehran, Iran'', (Some ''Iran'', Some ''IRN'')),
      (''Tabriz, Iran'', (Some ''Iran'', Some ''IRN'')),
      (''Zanjan, Iran'', (Some ''Iran'', Some ''IRN'')),
      (''Urmia, Iran'', (Some ''Iran'', Some ''IRN'')),
      (''Yazd Province, Iran'', (Some ''Iran'', Some ''IRN'')),
      (''Sabzevar, Iran'', (Some ''Iran'', Some ''IRN'')),
      (''Tehran Province, Iran'', (Some ''Iran'', Some ''IRN'')),
      (''Karaj, Iran'', (Some ''Iran'', Some ''IRN'')),
      (''Mianeh, Iran'', (Some ''Iran'', Some ''IRN'')),
      (''Naghadeh, Iran'', (Some ''Iran'', Some ''IRN'')),
      (''Ilam, Iran'', (Some ''Iran'', Some ''IRN'')),
      (''Mashhad, Iran'', (Some ''Iran'', Some ''IRN'')),
      (''Ardabil, Iran'', (Some ''Iran'', Some ''IRN'')),
      (''Iran'', (Some ''Iran'', Some ''IRN'')),
      (''Nayarit, Mexico'', (Some ''Mexico'', Some ''MEX'')),
      (''Sinaloa, Mexico'', (Some ''Mexico'', Some ''MEX'')),
      (''Baja California, Mexico'', (Some ''Mexico'', Some ''MEX'')),
      (''Jalisco, Mexico'', (Some ''Mexico'', Some ''MEX'')),
      (''Veracruz, Mexico'', (Some ''Mexico'', Some ''MEX'')),
      (''Jerez, Zacatecas, Mexico'', (Some ''Mexico'', Some ''MEX'')),
      (''Chuicopa, Sinaloa, Mexico'', (Some ''Mexico'', Some ''MEX'')),
      (''Mezquital del Oro, Zacatecas, Mexico'', (Some ''Mexico'', Some ''MEX'')),
      (''Zacatecas, Mexico'', (Some ''Mexico'', Some ''MEX'')),
      (''Colima, Mexico'', (Some ''Mexico'', Some ''MEX'')),
      (''Mexico City, Mexico'', (Some ''Mexico'', Some ''MEX'')),
      (''Hidalgo, Mexico'', (Some ''Mexico'', Some ''MEX'')),
      (''Durango, Mexico'', (Some ''Mexico'', Some ''MEX'')),
      (''Mexico'', (Some ''Mexico'', Some ''MEX'')),
      (''Jucuaran, Usulutan, El Salvador'', (Some ''El Salvador'', Some ''SLV'')),
      (''San Francisco Menendez, Ahuachapan, El Salvador'', (Some ''El Salvador'', Some ''SLV'')),
      (''San Salvador, San Salvador, El Salvador'', (Some ''El Salvador'', Some ''SLV'')),
      (''Ozatlan, Usulutan, El Salvador'', (Some ''El Salvador'', Some ''SLV'')),
      (''Ahuachapan, Ahuachapan, El Salvador'', (Some ''El Salvador'', Some ''SLV'')),
      (''Tejutla, Chalatenango, El Salvador'', (Some ''El Salvador'', Some ''SLV'')),
      (''Cuscatancingo, San Salvador, El Salvador'', (Some ''El Salvador'', Some ''SLV'')),
      (''Usulutan, Usulutan, El Salvador'', (Some ''El Salvador'', Some ''SLV'')),
      (''El Salvador'', (Some ''El Salvador'', Some ''SLV'')),
      (''Pyongyang, North Korea'', (Some ''North Korea'', Some ''PRK'')),
      (''Democratic People's Republic of Korea (North Korea)'', (Some ''North Korea'', Some ''PRK'')),
      (''Kryvyi Rih, Dnipropetrovsk Oblast, Ukraine'', (Some ''Ukraine'', Some ''UKR'')),
      (''Kyiv, Ukraine'', (Some ''Ukraine'', Some ''UKR'')),
      (''Kiev, Ukraine'', (Some ''Ukraine'', Some ''UKR'')),
      (''Boryspil, Kyiv Oblast, Ukraine'', (Some ''Ukraine'', Some ''UKR'')),
      (''Ukraine'', (Some ''Ukraine'', Some ''UKR'')),
      (''Homs, Syria'', (Some ''Syria'', Some ''SYR'')),
      (''Damascus, Syria'', (Some ''Syria'', Some ''SYR'')),
      (''Allepo, Syria'', (Some ''Syria'', Some ''SYR'')),
      (''Syria'', (Some ''Syria'', Some ''SYR'')),
      (''San Juan, Puerto Rico'', (Some ''Puerto Rico'', Some ''PRI'')),
      (''Lajas, Puerto Rico'', (Some ''Puerto Rico'', Some ''PRI'')),
      (''Aguada, Puerto Rico'', (Some ''Puerto Rico'', Some ''PRI'')),
      (''Pakistan'', (Some ''Pakistan'', Some ''PAK'')),
      (''Pranpura, Haryana, India'', (Some ''India'', Some ''IND'')),
      (''Hyderabad, Pakistan'', (Some ''Pakistan'', Some ''PAK'')),
      (''Karachi, Pakistan'', (Some ''Pakistan'', Some ''PAK'')),
      (''India'', (Some ''India'', Some ''IND'')),
      (''Honduras'', (Some ''Honduras'', Some ''HND'')),
      (''Atlantida, Honduras'', (Some ''Honduras'', Some ''HND'')),
      (''Copan, Honduras'', (Some ''Honduras'', Some ''HND'')),
      (''Cambodia'', (Some ''Cambodia'', Some ''KHM'')),
      (''Uzbekistan'', (Some ''Uzbekistan'', Some ''UZB'')),
      (''Toy Teipa, Uzbekistan'', (Some ''Uzbekistan'', Some ''UZB'')),
      (''Haiti'', (Some ''Haiti'', Some ''HTI'')),
      (''Nigeria'', (Some ''Nigeria'', Some ''NGA'')),
      (''Minsk, Belarus'', (Some ''Belarus'', Some ''BLR'')),
      (''Jamaica'', (Some ''Jamaica'', Some ''JAM'')),
      (''Santiago, Dominican Republic'', (Some ''Dominican Republic'', Some ''DOM'')),
      (''Dominican Republic'', (Some ''Dominican Republic'', Some ''DOM'')),
      (''La Calera, Chile'', (Some ''Chile'', Some ''CHL'')),
      (''LaGuaira, Venezuela'', (Some ''Venezuela'', Some ''VEN'')),
      (''Venezuela'', (Some ''Venezuela'', Some ''VEN'')),
      (''Bangladesh'', (Some ''Bangladesh'', Some ''BGD'')),
      (''Riga, Latvia'', (Some ''Latvia'', Some ''LVA'')),
      (''Vietnam'', (Some ''Vietnam'', Some ''VNM'')),
      (''Republic of Vietnam'', (Some ''Vietnam'', Some ''VNM'')),
      (''Mong Cai, Quang Ninh Province, North Vietnam'', (Some ''Vietnam'', Some ''VNM'')),
      (''Quang Binh Province, Vietnam'', (Some ''Vietnam'', Some ''VNM'')),
      (''Sweden'', (Some ''Sweden'', Some ''SWE'')),
      (''Canada'', (Some ''Canada'', Some ''CAN'')),
      (''Bel Ombre, Mahe Island, Seychelles'', (Some ''Seychelles'', Some ''SYC'')),
      (''Spain'', (Some ''Spain'', Some ''ESP'')),
      (''Cuba'', (Some ''Cuba'', Some ''CUB'')),
      (''Turkey'', (Some ''Turkey'', Some ''TUR'')),
      (''Armenia'', (Some ''Armenia'', Some ''ARM'')),
      (''Ghana'', (Some ''Ghana'', Some ''GHA'')),
      (''Ecuador'', (Some ''Ecuador'', Some ''ECU'')),
      (''Guayaquil, Ecuador'', (Some ''Ecuador'', Some ''ECU'')),
      (''Brazil'', (Some ''Brazil'', Some ''BRA'')),
      (''Laos'', (Some ''Laos'', Some ''LAO'')),
      (''Philippines'', (Some ''Philippines'', Some ''PHL'')),
      (''Ilocos Norte, Philippines'', (Some ''Philippines'', Some ''PHL'')),
      (''Germany'', (Some ''Germany'', Some ''DEU'')),
      (''Sydney, Australia'', (Some ''Australia'', Some ''AUS'')),
      (''Sumqayit, Azerbaijan'', (Some ''Azerbaijan'', Some ''AZE'')),
      (''Muscat, Oman'', (Some ''Oman'', Some ''OMN'')),
      (''United Kingdom'', (Some ''United Kingdom'', Some ''GBR'')),
      (''Batroun, Lebanon'', (Some ''Lebanon'', Some ''LBN'')),
      (''Guatemala'', (Some ''Guatemala'', Some ''GTM'')),
      (''Unknown'', (None, None)),
      ('''', (None, None))]"

definition extract_country_from_birth_place :: "cell \<Rightarrow> string option \<times> string option" where
  "extract_country_from_birth_place place =
     (if is_blank place then (None, None)
      else let place' = strip (py_str place) in
        case map_of BIRTH_PLACE_MAPPING place' of
          Some entry \<Rightarrow> entry
        | None \<Rightarrow> (Some place', None))"

section \<open>The table and the stages of \<^verbatim>\<open>clean_dataframe\<close>\<close>

text \<open>
  A \<^verbatim>\<open>pandas.DataFrame\<close> is its row count (the length of the index) and its columns
  in order, each a label and the cells of the rows. Labels may repeat, as in pandas.
  The conversions \<^verbatim>\<open>.astype("Int64")\<close> and \<^verbatim>\<open>.astype('bool')\<close> do not change a
  cell of this model: an integer stays \<open>IntV\<close>, a missing value stays \<open>NA\<close>, a truth
  value stays \<open>BoolV\<close>.
\<close>

record dataframe =
  n_rows :: nat
  cols :: "(string \<times> cell list) list"

definition columns :: "dataframe \<Rightarrow> string list" where
  "columns df = map fst (cols df)"

text \<open>\<^verbatim>\<open>name in df.columns\<close>\<close>

definition has_col :: "string \<Rightarrow> dataframe \<Rightarrow> bool" where
  "has_col name df = (name \<in> set (columns df))"

text \<open>The columns that carry a label, in table order.\<close>

definition col_values :: "string \<Rightarrow> dataframe \<Rightarrow> cell list list" where
  "col_values name df = map snd (filter (\<lambda>c. fst c = name) (cols df))"

text \<open>
  \<^verbatim>\<open>df[name].apply(f)\<close>: \<open>f\<close> on each cell in row order, the first exception ending
  the call. With a repeated label \<^verbatim>\<open>df[name]\<close> is a table, \<open>f\<close> receives whole columns
  and the guard \<^verbatim>\<open>pd.isna(x) or ...\<close> of every parser raises \<^verbatim>\<open>ValueError\<close>; a missing
  label is a \<^verbatim>\<open>KeyError\<close>.
\<close>

definition apply_col :: "dataframe \<Rightarrow> string \<Rightarrow> (cell \<Rightarrow> py_error + 'a) \<Rightarrow> py_error + 'a list" where
  "apply_col df name f =
     (case col_values name df of
        [] \<Rightarrow> Inl KeyError
      | [c] \<Rightarrow> map_err f c
      | _ \<Rightarrow> Inl ValueError)"

text \<open>
  \<^verbatim>\<open>df[name] = values\<close>: an existing label keeps its place (every column carrying it
  receives the values), a new label is appended.
\<close>

definition set_col :: "string \<Rightarrow> cell list \<Rightarrow> dataframe \<Rightarrow> dataframe" where
  "set_col name vals df =
     (if has_col name df
      then df\<lparr>cols := map (\<lambda>c. if fst c = name then (name, vals) else c) (cols df)\<rparr>
      else df\<lparr>cols := cols df @ [(name, vals)]\<rparr>)"

text \<open>\<^verbatim>\<open>df.drop(columns=[name], inplace=True)\<close>\<close>

definition drop_col :: "string \<Rightarrow> dataframe \<Rightarrow> dataframe" where
  "drop_col name df = df\<lparr>cols := filter (\<lambda>c. fst c \<noteq> name) (cols df)\<rparr>"

definition opt_cell :: "('a \<Rightarrow> cell) \<Rightarrow> 'a option \<Rightarrow> cell" where
  "opt_cell f x = (case x of None \<Rightarrow> NA | Some v \<Rightarrow> f v)"

text \<open>The value a date cell hands to \<^verbatim>\<open>compute_age\<close> and \<^verbatim>\<open>zodiac_sign\<close>.\<close>

definition cell_date :: "cell \<Rightarrow> date option" where
  "cell_date c = (case c of DateV d \<Rightarrow> Some d | _ \<Rightarrow> None)"

definition process_aliases :: "dataframe \<Rightarrow> py_error + dataframe" where
  "process_aliases df =
     (if has_col ''alias'' df then
        bind_err (apply_col df ''alias'' (\<lambda>c. Inr (IntV (int (count_aliases c))))) (\<lambda>counts.
          Inr (set_col ''alias_count'' counts df))
      else Inr df)"

definition dob_labels :: "string list" where
  "dob_labels = [''Date(s) of Birth Used'', ''Date of Birth'', ''DOB'']"

definition process_dates_and_ages :: "dataframe \<Rightarrow> py_error + dataframe" where
  "process_dates_and_ages df =
     (case filter (\<lambda>c. has_col c df) dob_labels of
        [] \<Rightarrow> Inr df
      | dob_col # _ \<Rightarrow>
          bind_err (apply_col df dob_col (\<lambda>c. bind_err (parse_date c) (\<lambda>d. Inr (opt_cell DateV d)))) (\<lambda>dates.
            let df1 = set_col dob_col dates df in
            bind_err (apply_col df1 dob_col (\<lambda>c. Inr (opt_cell IntV (compute_age (cell_date c) TODAY)))) (\<lambda>ages.
              let df2 = set_col ''age_years'' ages df1 in
              bind_err (apply_col df2 dob_col (\<lambda>c. Inr (opt_cell Str (zodiac_sign (cell_date c))))) (\<lambda>signs.
                Inr (set_col ''zodiac_sign'' signs df2)))))"

definition process_occupations :: "dataframe \<Rightarrow> py_error + dataframe" where
  "process_occupations df =
     (if has_col ''Occupation'' df then
        bind_err (apply_col df ''Occupation'' (\<lambda>c. Inr (Str (categorize_occupation c)))) (\<lambda>cats.
          Inr (set_col ''occupation_category'' cats df))
      else Inr df)"

definition process_birth_places :: "dataframe \<Rightarrow> py_error + dataframe" where
  "process_birth_places df =
     (if has_col ''Place of Birth'' df then
        bind_err (apply_col df ''Place of Birth'' (\<lambda>c. Inr (extract_country_from_birth_place c))) (\<lambda>country_data.
          Inr (set_col ''birth_country_code'' (map (\<lambda>x. opt_cell Str (snd x)) country_data)
                (set_col ''birth_country'' (map (\<lambda>x. opt_cell Str (fst x)) country_data) df)))
      else Inr df)"

definition process_languages :: "dataframe \<Rightarrow> py_error + dataframe" where
  "process_languages df =
     (if has_col ''Languages'' df then
        bind_err (apply_col df ''Languages'' (\<lambda>c. Inr (split_languages c))) (\<lambda>lang_split.
          Inr (set_col ''Language_3'' (map (\<lambda>x. opt_cell Str (snd (snd x))) lang_split)
                (set_col ''Language_2'' (map (\<lambda>x. opt_cell Str (fst (snd x))) lang_split)
                  (set_col ''Language_1'' (map (\<lambda>x. opt_cell Str (fst x)) lang_split) df))))
      else Inr df)"

definition process_hair_color :: "dataframe \<Rightarrow> py_error + dataframe" where
  "process_hair_color df =
     (if has_col ''Hair'' df then
        bind_err (apply_col df ''Hair'' (\<lambda>c. Inr (opt_cell Str (extract_first_hair_color c)))) (\<lambda>colors.
          Inr (set_col ''hair_color'' colors df))
      else Inr df)"

definition process_height :: "dataframe \<Rightarrow> py_error + dataframe" where
  "process_height df =
     (if has_col ''Height'' df then
        bind_err (apply_col df ''Height'' (\<lambda>c. bind_err (parse_height_to_cm c) (\<lambda>v. Inr (opt_cell FloatV v)))) (\<lambda>heights.
          Inr (set_col ''height_cm'' heights df))
      else Inr df)"

definition process_weight :: "dataframe \<Rightarrow> py_error + dataframe" where
  "process_weight df =
     (if has_col ''Weight'' df then
        bind_err (apply_col df ''Weight'' (\<lambda>c. bind_err (parse_weight_to_kg c) (\<lambda>v. Inr (opt_cell FloatV v)))) (\<lambda>weights.
          Inr (set_col ''weight_kg'' weights df))
      else Inr df)"

text \<open>The two \<^verbatim>\<open>if\<close> blocks of \<^verbatim>\<open>process_physical_measurements\<close>, in order.\<close>

definition process_physical_measurements :: "dataframe \<Rightarrow> py_error + dataframe" where
  "process_physical_measurements df = bind_err (process_height df) process_weight"

definition process_marks :: "dataframe \<Rightarrow> py_error + dataframe" where
  "process_marks df =
     (if has_col ''Scars and Marks'' df then
        bind_err (apply_col df ''Scars and Marks'' (\<lambda>c. Inr (BoolV (detect_scars_marks c)))) (\<lambda>marks.
          Inr (set_col ''has_mark'' marks df))
      else Inr df)"

definition process_caution :: "dataframe \<Rightarrow> py_error + dataframe" where
  "process_caution df =
     (if has_col ''caution'' df then
        bind_err (apply_col df ''caution'' (\<lambda>c. Inr (BoolV (detect_dollar_amounts c)))) (\<lambda>cautions.
          Inr (set_col ''has_caution'' cautions df))
      else Inr df)"

definition process_marks_and_caution :: "dataframe \<Rightarrow> py_error + dataframe" where
  "process_marks_and_caution df = bind_err (process_marks df) process_caution"

definition cols_to_drop :: "string list" where
  "cols_to_drop = [''image_url'', ''remarks'', ''race'', ''Race'', ''caution'',
     ''Height'', ''Weight'', ''Scars and Marks'', ''Build'',
     ''Citizenship'', ''Complexion'', ''Age'',
     ''Languages'', ''Occupation'', ''Place of Birth'', ''Hair'']"

definition remove_unused_columns :: "dataframe \<Rightarrow> dataframe" where
  "remove_unused_columns df =
     fold (\<lambda>col d. if has_col col d then drop_col col d else d) cols_to_drop df"

definition rename_map :: "(string \<times> string) list" where
  "rename_map =
     [(''Date(s) of Birth Used'', ''date_of_birth''),
      (''Eyes'', ''eye_color''),
      (''Sex'', ''sex''),
      (''Nationality'', ''nationality''),
      (''NCIC'', ''ncic_number''),
      (''alias'', ''alias_text''),
      (''field_office'', ''fbi_field_office''),
      (''Language_1'', ''language_primary''),
      (''Language_2'', ''language_secondary''),
      (''Language_3'', ''language_tertiary'')]"

definition rename_label :: "string \<Rightarrow> string" where
  "rename_label name = (case map_of rename_map name of Some new \<Rightarrow> new | None \<Rightarrow> name)"

text \<open>\<^verbatim>\<open>df.rename(columns=rename_map)\<close>\<close>

definition rename_columns :: "dataframe \<Rightarrow> dataframe" where
  "rename_columns df = df\<lparr>cols := map (\<lambda>c. (rename_label (fst c), snd c)) (cols df)\<rparr>"

definition column_order :: "string list" where
  "column_order =
     [''url'', ''name'', ''alias_text'', ''alias_count'', ''ncic_number'', ''category'',
      ''date_of_birth'', ''age_years'', ''zodiac_sign'', ''sex'', ''nationality'',
      ''birth_country'', ''birth_country_code'',
      ''height_cm'', ''weight_kg'', ''eye_color'', ''hair_color'', ''has_mark'',
      ''language_primary'', ''language_secondary'', ''language_tertiary'',
      ''occupation_category'',
      ''fbi_field_office'', ''has_caution'']"

text \<open>
  The order of the final table: the labels of \<^verbatim>\<open>column_order\<close> that exist, then, by
  the loop over \<^verbatim>\<open>df.columns\<close>, every label not yet in the list.
\<close>

definition final_order :: "dataframe \<Rightarrow> string list" where
  "final_order df =
     fold (\<lambda>col order. if col \<notin> set order then order @ [col] else order) (columns df)
       (filter (\<lambda>col. has_col col df) column_order)"

text \<open>\<^verbatim>\<open>df[labels]\<close>: for each label in turn, the columns that carry it.\<close>

definition select_cols :: "string list \<Rightarrow> dataframe \<Rightarrow> dataframe" where
  "select_cols labels df =
     df\<lparr>cols := concat (map (\<lambda>l. filter (\<lambda>c. fst c = l) (cols df)) labels)\<rparr>"

text \<open>The first half of \<^verbatim>\<open>rename_and_reorganize_columns\<close>: the table renamed and reordered.\<close>

definition reordered :: "dataframe \<Rightarrow> dataframe" where
  "reordered df = (let df1 = rename_columns df in select_cols (final_order df1) df1)"

definition bool_cols :: "string list" where
  "bool_cols = [''has_mark'', ''has_caution'']"

text \<open>
  The second half prints \<^verbatim>\<open>df[col].dtype\<close> for the two boolean columns that exist. Under a
  repeated label \<^verbatim>\<open>df[col]\<close> is a table, which has no \<^verbatim>\<open>dtype\<close>: an \<^verbatim>\<open>AttributeError\<close>.
\<close>

definition rename_and_reorganize_columns :: "dataframe \<Rightarrow> py_error + dataframe" where
  "rename_and_reorganize_columns df =
     (let df2 = reordered df in
      if list_ex (\<lambda>col. has_col col df2 \<and> 1 < length (col_values col df2)) bool_cols
      then Inl AttributeError else Inr df2)"

definition clean_dataframe :: "dataframe \<Rightarrow> py_error + dataframe" where
  "clean_dataframe df =
     bind_err (process_aliases df) (\<lambda>out.
     bind_err (process_dates_and_ages out) (\<lambda>out.
     bind_err (process_occupations out) (\<lambda>out.
     bind_err (process_birth_places out) (\<lambda>out.
     bind_err (process_languages out) (\<lambda>out.
     bind_err (process_hair_color out) (\<lambda>out.
     bind_err (process_physical_measurements out) (\<lambda>out.
     bind_err (process_marks_and_caution out) (\<lambda>out.
       rename_and_reorganize_columns (remove_unused_columns out)))))))))"

section \<open>Notions used in the proofs about the matcher\<close>

text \<open>The words a pattern can consume, word boundaries left aside.\<close>

fun lang :: "regex \<Rightarrow> string \<Rightarrow> bool" where
  "lang (Chr p) w = (\<exists>c. w = [c] \<and> p c)"
| "lang (Rep lo hi p) w =
     (list_all p w \<and> lo \<le> length w \<and> (case hi of None \<Rightarrow> True | Some h \<Rightarrow> length w \<le> h))"
| "lang Eps w = (w = [])"
| "lang (Seq a b) w = (\<exists>u v. w = u @ v \<and> lang a u \<and> lang b v)"
| "lang (Alt a b) w = (lang a w \<or> lang b w)"
| "lang (Opt a) w = (w = [] \<or> lang a w)"
| "lang (Grp g a) w = lang a w"
| "lang WordB w = (w = [])"

text \<open>The texts group \<open>g\<close> of a pattern can capture.\<close>

fun grp_lang :: "regex \<Rightarrow> nat \<Rightarrow> string \<Rightarrow> bool" where
  "grp_lang (Grp h a) g x = ((h = g \<and> lang a x) \<or> grp_lang a g x)"
| "grp_lang (Seq a b) g x = (grp_lang a g x \<or> grp_lang b g x)"
| "grp_lang (Alt a b) g x = (grp_lang a g x \<or> grp_lang b g x)"
| "grp_lang (Opt a) g x = grp_lang a g x"
| "grp_lang (Chr p) g x = False"
| "grp_lang (Rep lo hi p) g x = False"
| "grp_lang Eps g x = False"
| "grp_lang WordB g x = False"

text \<open>Group \<open>g\<close> takes part in every match of the pattern.\<close>

fun sets_group :: "regex \<Rightarrow> nat \<Rightarrow> bool" where
  "sets_group (Grp h a) g = (h = g \<or> sets_group a g)"
| "sets_group (Seq a b) g = (sets_group a g \<or> sets_group b g)"
| "sets_group (Alt a b) g = (sets_group a g \<and> sets_group b g)"
| "sets_group (Opt a) g = False"
| "sets_group (Chr p) g = False"
| "sets_group (Rep lo hi p) g = False"
| "sets_group Eps g = False"
| "sets_group WordB g = False"

text \<open>Digits with an optional fraction.\<close>

definition decimal :: "string \<Rightarrow> bool" where
  "decimal x = (\<exists>ds fs. all_digits ds \<and> (x = ds \<or> (all_digits fs \<and> x = ds @ CHR ''.'' # fs)))"

section \<open>Notions used in the statements about tables\<close>

text \<open>Every column has one cell per row.\<close>

definition wf_frame :: "dataframe \<Rightarrow> bool" where
  "wf_frame df = list_all (\<lambda>c. length (snd c) = n_rows df) (cols df)"

text \<open>The cells of row \<open>i\<close> under a label.\<close>

definition row_field :: "string \<Rightarrow> dataframe \<Rightarrow> nat \<Rightarrow> cell list" where
  "row_field name df i = map (\<lambda>c. c ! i) (col_values name df)"

text \<open>
  \<open>touches ts df out\<close>: \<open>out\<close> has the rows of \<open>df\<close>, every label of \<open>df\<close>, and the
  columns of \<open>df\<close> unchanged under every label outside \<open>ts\<close>; labels keep their order
  and new ones come last.
\<close>

definition touches :: "string list \<Rightarrow> dataframe \<Rightarrow> dataframe \<Rightarrow> bool" where
  "touches ts df out =
     (n_rows out = n_rows df
      \<and> (\<forall>name. name \<notin> set ts \<longrightarrow> col_values name out = col_values name df)
      \<and> (\<forall>name. has_col name df \<longrightarrow> has_col name out)
      \<and> (\<forall>name. has_col name out \<longrightarrow> has_col name df \<or> name \<in> set ts)
      \<and> (wf_frame df \<longrightarrow> wf_frame out)
      \<and> (distinct (columns df) \<longrightarrow> distinct (columns out)))"

text \<open>The column that \<^verbatim>\<open>process_dates_and_ages\<close> parses: the \<^verbatim>\<open>next(...)\<close> of its first line.\<close>

definition dob_col_of :: "dataframe \<Rightarrow> string option" where
  "dob_col_of df = (case filter (\<lambda>c. has_col c df) dob_labels of [] \<Rightarrow> None | c # _ \<Rightarrow> Some c)"

text \<open>The labels that the eight stages before the finalisation assign to.\<close>

definition derived_labels :: "string list" where
  "derived_labels = [''alias_count''] @ (dob_labels @ [''age_years'', ''zodiac_sign''])
     @ [''occupation_category''] @ [''birth_country'', ''birth_country_code'']
     @ [''Language_1'', ''Language_2'', ''Language_3''] @ [''hair_color'']
     @ [''height_cm'', ''weight_kg''] @ [''has_mark'', ''has_caution'']"

text \<open>Labels that the renaming neither takes away nor produces.\<close>

definition stable_label :: "string \<Rightarrow> bool" where
  "stable_label name = (name \<notin> set (map fst rename_map) \<and> name \<notin> set (map snd rename_map))"

text \<open>
  \<open>derived_from src tgt f df out\<close>: \<open>df\<close> has one column \<open>src\<close>, \<open>out\<close> has a column
  \<open>tgt\<close>, and every column \<open>tgt\<close> of \<open>out\<close> is \<open>f\<close> applied cell by cell to \<open>src\<close>.
\<close>

definition derived_from :: "string \<Rightarrow> string \<Rightarrow> (cell \<Rightarrow> cell) \<Rightarrow> dataframe \<Rightarrow> dataframe \<Rightarrow> bool" where
  "derived_from src tgt f df out =
     (case col_values src df of
        [c] \<Rightarrow> col_values tgt out \<noteq> [] \<and> list_all (\<lambda>col. col = map f c) (col_values tgt out)
      | _ \<Rightarrow> False)"

text \<open>The first exception in a list of outcomes, if any.\<close>

fun first_fault :: "(py_error + 'a) list \<Rightarrow> py_error option" where
  "first_fault [] = None"
| "first_fault (Inl e # rs) = Some e"
| "first_fault (Inr v # rs) = first_fault rs"

text \<open>
  The exception of the first cell, in row order, of the column \<^verbatim>\<open>Height\<close> on which
  \<^verbatim>\<open>parse_height_to_cm\<close> raises.
\<close>

definition height_fault :: "dataframe \<Rightarrow> py_error option" where
  "height_fault df = first_fault (map parse_height_to_cm (concat (col_values ''Height'' df)))"

text \<open>
  A table of scraped text: every cell is a string or \<^verbatim>\<open>None\<close>, as in the table that
  \<^verbatim>\<open>create_raw_dataframe\<close> builds from the scraped records.
\<close>

definition text_cell :: "cell \<Rightarrow> bool" where
  "text_cell c = (case c of NA \<Rightarrow> True | Str s \<Rightarrow> True | _ \<Rightarrow> False)"

definition text_frame :: "dataframe \<Rightarrow> bool" where
  "text_frame df = list_all (\<lambda>col. list_all text_cell (snd col)) (cols df)"

text \<open>The eight stages of \<^verbatim>\<open>clean_dataframe\<close> that come before the finalisation, composed.\<close>

definition stages :: "dataframe \<Rightarrow> py_error + dataframe" where
  "stages df =
     bind_err (bind_err (bind_err (bind_err (bind_err (bind_err (bind_err
       (process_aliases df) process_dates_and_ages) process_occupations) process_birth_places)
       process_languages) process_hair_color) process_physical_measurements) process_marks_and_caution"

section \<open>Example tables\<close>

text \<open>Two scraped profiles, the second with nothing but its address, name and sex.\<close>

definition sample_frame :: dataframe where
  "sample_frame = \<lparr>n_rows = 2, cols =
     [(''url'', [Str ''https://www.fbi.gov/wanted/a'', Str ''https://www.fbi.gov/wanted/b'']),
      (''name'', [Str ''JOHN DOE'', Str ''JANE ROE'']),
      (''alias'', [Str ''John Smith, Jack Doe'', NA]),
      (''caution'', [Str ''A reward of up to $10,000 is offered'', NA]),
      (''Date(s) of Birth Used'', [Str ''April 13, 1961'', NA]),
      (''Height'', [Str ''180 cm'', NA]),
      (''Weight'', [Str ''80 kg'', NA]),
      (''Occupation'', [Str ''Software engineer'', NA]),
      (''Scars and Marks'', [Str ''Scar on left arm'', NA]),
      (''Sex'', [Str ''Male'', Str ''Female''])]\<rparr>"

definition sample_cleaned :: dataframe where
  "sample_cleaned = \<lparr>n_rows = 2, cols =
     [(''url'', [Str ''https://www.fbi.gov/wanted/a'', Str ''https://www.fbi.gov/wanted/b'']),
      (''name'', [Str ''JOHN DOE'', Str ''JANE ROE'']),
      (''alias_text'', [Str ''John Smith, Jack Doe'', NA]),
      (''alias_count'', [IntV 2, IntV 0]),
      (''date_of_birth'', [DateV \<lparr>year = 1961, month = 4, day = 13\<rparr>, NA]),
      (''age_years'', [IntV 64, NA]),
      (''zodiac_sign'', [Str ''Aries'', NA]),
      (''sex'', [Str ''Male'', Str ''Female'']),
      (''height_cm'', [FloatV 180, NA]),
      (''weight_kg'', [FloatV 80, NA]),
      (''has_mark'', [BoolV True, BoolV False]),
      (''occupation_category'', [Str ''IT/Technology'', Str ''Unknown'']),
      (''has_caution'', [BoolV True, BoolV False])]\<rparr>"

text \<open>A height of four hundred nines, in feet, beside an ordinary one.\<close>

definition overflow_frame :: dataframe where
  "overflow_frame = \<lparr>n_rows = 2, cols =
     [(''url'', [Str ''https://www.fbi.gov/wanted/a'', Str ''https://www.fbi.gov/wanted/b'']),
      (''Height'', [Str (replicate 400 CHR ''9'' @ '' ft''), Str ''180 cm''])]\<rparr>"

text \<open>Profiles none of which has a row \<^verbatim>\<open>Occupation\<close> or \<^verbatim>\<open>Scars and Marks\<close> in its table.\<close>

definition sparse_frame :: dataframe where
  "sparse_frame = \<lparr>n_rows = 1, cols =
     [(''url'', [Str ''https://www.fbi.gov/wanted/a'']),
      (''alias'', [NA]),
      (''caution'', [NA])]\<rparr>"

definition sparse_cleaned :: dataframe where
  "sparse_cleaned = \<lparr>n_rows = 1, cols =
     [(''url'', [Str ''https://www.fbi.gov/wanted/a'']),
      (''alias_text'', [NA]),
      (''alias_count'', [IntV 0]),
      (''has_caution'', [BoolV False])]\<rparr>"

text \<open>A table with two of the three date labels.\<close>

definition two_dates_frame :: dataframe where
  "two_dates_frame = \<lparr>n_rows = 1, cols =
     [(''url'', [Str ''https://www.fbi.gov/wanted/a'']),
      (''Date(s) of Birth Used'', [Str ''January 1, 1990'']),
      (''Date of Birth'', [Str ''1980-05-05''])]\<rparr>"

definition two_dates_once :: dataframe where
  "two_dates_once = \<lparr>n_rows = 1, cols =
     [(''url'', [Str ''https://www.fbi.gov/wanted/a'']),
      (''date_of_birth'', [DateV \<lparr>year = 1990, month = 1, day = 1\<rparr>]),
      (''age_years'', [IntV 35]),
      (''zodiac_sign'', [Str ''Capricorn'']),
      (''Date of Birth'', [Str ''1980-05-05''])]\<rparr>"

definition two_dates_twice :: dataframe where
  "two_dates_twice = \<lparr>n_rows = 1, cols =
     [(''url'', [Str ''https://www.fbi.gov/wanted/a'']),
      (''date_of_birth'', [DateV \<lparr>year = 1990, month = 1, day = 1\<rparr>]),
      (''age_years'', [IntV 45]),
      (''zodiac_sign'', [Str ''Taurus'']),
      (''Date of Birth'', [DateV \<lparr>year = 1980, month = 5, day = 5\<rparr>])]\<rparr>"

section \<open>Verified properties\<close>

subsection \<open>Two-digit years in \<^verbatim>\<open>parse_date\<close>\<close>

text \<open>
  The text \<^verbatim>\<open>04/13/61\<close> is a complete date in the layout \<^verbatim>\<open>%m/%d/%y\<close>, which the
  first loop of \<^verbatim>\<open>parse_date\<close> tries before any pattern search; \<^verbatim>\<open>strptime\<close> reads
  the year 61 as 2061. The rule "above 25 is 19xx" lives in \<^verbatim>\<open>_parse_date_with_regex\<close>
  and is reached only when no layout fits the whole text.
\<close>

lemma parse_date_slash_05: "parse_date (Str ''04/13/05'') = Inr (Some \<lparr>year = 2005, month = 4, day = 13\<rparr>)"
  by code_simp

lemma parse_date_embedded_61:
  "parse_date (Str ''DOB 04/13/61'') = Inr (Some \<lparr>year = 1961, month = 4, day = 13\<rparr>)"
  by code_simp

lemma parse_date_embedded_05:
  "parse_date (Str ''DOB 04/13/05'') = Inr (Some \<lparr>year = 5, month = 4, day = 13\<rparr>)"
  by code_simp

text \<open>
  Claim C1. A slashed date with a two-digit year is to be read with the rule "digits
  above 25 are 19xx, else 20xx", so that \<^verbatim>\<open>parse_date("04/13/61")\<close> is 13 April 1961.
  The program returns 13 April 2061 on that input.
\<close>

theorem parse_date_slash_61:
  "parse_date (Str ''04/13/61'') = Inr (Some \<lparr>year = 2061, month = 4, day = 13\<rparr>)"
  by code_simp

subsection \<open>\<^verbatim>\<open>zodiac_sign\<close> is total on dates\<close>

lemma zodiac_loop_table:
  "zodiac_loop m d zodiac_ranges \<in> Some ` set sign_names"
  by (simp add: zodiac_ranges_def sign_names_def)

text \<open>
  Claim C10. For every birth date \<^verbatim>\<open>zodiac_sign\<close> returns one of the twelve sign
  names; a date within none of the eleven listed ranges gets the final entry
  \<^verbatim>\<open>Capricorn\<close>; the result is absent exactly when the birth date is absent.
\<close>

theorem zodiac_sign_total:
  "zodiac_sign (Some b) \<in> Some ` set sign_names
   \<and> (\<not> list_ex (in_sign_range (month b) (day b)) zodiac_ranges
        \<longrightarrow> zodiac_sign (Some b) = Some ''Capricorn'')
   \<and> (zodiac_sign birth_date = None \<longleftrightarrow> birth_date = None)"
proof (intro conjI)
  show "zodiac_sign (Some b) \<in> Some ` set sign_names"
    using zodiac_loop_table by (simp add: zodiac_sign_def)
  show "\<not> list_ex (in_sign_range (month b) (day b)) zodiac_ranges
        \<longrightarrow> zodiac_sign (Some b) = Some ''Capricorn''"
    by (simp add: zodiac_sign_def zodiac_ranges_def in_sign_range_def)
  show "zodiac_sign birth_date = None \<longleftrightarrow> birth_date = None"
  proof (cases birth_date)
    case None
    then show ?thesis by (simp add: zodiac_sign_def)
  next
    case (Some d)
    have "zodiac_loop (month d) (day d) zodiac_ranges \<noteq> None"
      using zodiac_loop_table [of "month d" "day d"] by auto
    with Some show ?thesis by (simp add: zodiac_sign_def)
  qed
qed

theorem zodiac_sign_total_witness:
  "\<not> list_ex (in_sign_range 12 25) zodiac_ranges
   \<and> zodiac_sign (Some \<lparr>year = 1990, month = 12, day = 25\<rparr>) = Some ''Capricorn''
   \<and> zodiac_sign (Some \<lparr>year = 1990, month = 12, day = 25\<rparr>) \<in> Some ` set sign_names"
proof -
  have h: "\<not> list_ex (in_sign_range 12 25) zodiac_ranges"
    by (simp add: zodiac_ranges_def in_sign_range_def)
  have t: "zodiac_sign (Some \<lparr>year = 1990, month = 12, day = 25\<rparr>) \<in> Some ` set sign_names"
    and c: "\<not> list_ex (in_sign_range 12 25) zodiac_ranges
        \<longrightarrow> zodiac_sign (Some \<lparr>year = 1990, month = 12, day = 25\<rparr>) = Some ''Capricorn''"
    using zodiac_sign_total [of "\<lparr>year = 1990, month = 12, day = 25\<rparr>" None] by simp_all
  from c h have "zodiac_sign (Some \<lparr>year = 1990, month = 12, day = 25\<rparr>) = Some ''Capricorn''"
    by (rule mp)
  with h t show ?thesis by (intro conjI)
qed

subsection \<open>\<^verbatim>\<open>categorize_occupation\<close>\<close>

lemma starts_with_prefix: "starts_with k t \<longleftrightarrow> (\<exists>ss. t = k @ ss)"
  by (induction k t rule: starts_with.induct) auto

lemma py_in_substring: "py_in k t \<longleftrightarrow> (\<exists>ps ss. t = ps @ k @ ss)"
proof (induction t)
  case Nil
  then show ?case by auto
next
  case (Cons c cs)
  show ?case
  proof
    assume "py_in k (c # cs)"
    then consider "starts_with k (c # cs)" | "py_in k cs" by auto
    then show "\<exists>ps ss. c # cs = ps @ k @ ss"
    proof cases
      case 1
      then obtain ss where "c # cs = k @ ss" by (auto simp: starts_with_prefix)
      then have "c # cs = [] @ k @ ss" by simp
      then show ?thesis by blast
    next
      case 2
      with Cons obtain ps ss where "cs = ps @ k @ ss" by auto
      then have "c # cs = (c # ps) @ k @ ss" by simp
      then show ?thesis by blast
    qed
  next
    assume "\<exists>ps ss. c # cs = ps @ k @ ss"
    then obtain ps ss where e: "c # cs = ps @ k @ ss" by auto
    show "py_in k (c # cs)"
    proof (cases ps)
      case Nil
      with e have "starts_with k (c # cs)" by (auto simp: starts_with_prefix)
      then show ?thesis by simp
    next
      case (Cons p ps')
      with e have "cs = ps' @ k @ ss" by simp
      with Cons.IH have "py_in k cs" by blast
      then show ?thesis by simp
    qed
  qed
qed

lemma occupation_loop_find:
  "occupation_loop table (lower text) =
     (case find (category_matches text) table of None \<Rightarrow> ''Other'' | Some entry \<Rightarrow> fst entry)"
  by (induction table) (auto simp: category_matches_def occurs_ci_def)

lemma find_first: "P x \<Longrightarrow> find P (x # xs) = Some x"
  by simp

lemma military_first:
  "\<exists>rest. OCCUPATION_KEYWORDS =
     (''Military/Intelligence'', keywords_of ''Military/Intelligence'') # rest"
  by (simp add: OCCUPATION_KEYWORDS_def keywords_of_def)

lemma text_blank: "is_blank NA" "is_blank (Str s) \<longleftrightarrow> strip s = []"
  by (simp_all add: is_blank_def py_str_def)

text \<open>
  Claim C6. On an occupation text, that is a string or \<^verbatim>\<open>None\<close>,
  \<^verbatim>\<open>categorize_occupation\<close> gives \<^verbatim>\<open>Unknown\<close> for \<^verbatim>\<open>None\<close> and for a string that is empty
  once stripped, otherwise the first category of the table, in table order, one of
  whose keywords occurs in the text (case ignored), and \<^verbatim>\<open>Other\<close> when no category has
  one. A text with a Military/Intelligence keyword and an IT/Technology keyword gets
  Military/Intelligence, the earlier of the two.
\<close>

theorem categorize_occupation_first_match:
  "categorize_occupation NA = ''Unknown''
   \<and> categorize_occupation (Str s) =
     (if strip s = [] then ''Unknown''
      else case find (category_matches s) OCCUPATION_KEYWORDS of
             None \<Rightarrow> ''Other''
           | Some entry \<Rightarrow> fst entry)
   \<and> (strip s \<noteq> []
        \<and> list_ex (\<lambda>k. occurs_ci k s) (keywords_of ''Military/Intelligence'')
        \<and> list_ex (\<lambda>k. occurs_ci k s) (keywords_of ''IT/Technology'')
      \<longrightarrow> categorize_occupation (Str s) = ''Military/Intelligence'')"
proof (intro conjI impI)
  show "categorize_occupation NA = ''Unknown''"
    by (simp add: categorize_occupation_def text_blank)
  show eq: "categorize_occupation (Str s) =
     (if strip s = [] then ''Unknown''
      else case find (category_matches s) OCCUPATION_KEYWORDS of
             None \<Rightarrow> ''Other''
           | Some entry \<Rightarrow> fst entry)"
    by (simp add: categorize_occupation_def occupation_loop_find text_blank py_str_def)
  assume a: "strip s \<noteq> []
        \<and> list_ex (\<lambda>k. occurs_ci k s) (keywords_of ''Military/Intelligence'')
        \<and> list_ex (\<lambda>k. occurs_ci k s) (keywords_of ''IT/Technology'')"
  obtain rest where t: "OCCUPATION_KEYWORDS =
     (''Military/Intelligence'', keywords_of ''Military/Intelligence'') # rest"
    using military_first by blast
  from a have "category_matches s
     (''Military/Intelligence'', keywords_of ''Military/Intelligence'')"
    by (simp add: category_matches_def)
  then have "find (category_matches s) OCCUPATION_KEYWORDS =
     Some (''Military/Intelligence'', keywords_of ''Military/Intelligence'')"
    unfolding t by (rule find_first)
  with a eq show "categorize_occupation (Str s) = ''Military/Intelligence''"
    by simp
qed

theorem categorize_occupation_first_match_witness:
  "strip ''Military engineer'' \<noteq> []
   \<and> list_ex (\<lambda>k. occurs_ci k ''Military engineer'') (keywords_of ''Military/Intelligence'')
   \<and> list_ex (\<lambda>k. occurs_ci k ''Military engineer'') (keywords_of ''IT/Technology'')
   \<and> categorize_occupation (Str ''Military engineer'') = ''Military/Intelligence''"
proof -
  have h1: "strip ''Military engineer'' \<noteq> []" by code_simp
  have h2: "list_ex (\<lambda>k. occurs_ci k ''Military engineer'') (keywords_of ''Military/Intelligence'')"
    by code_simp
  have h3: "list_ex (\<lambda>k. occurs_ci k ''Military engineer'') (keywords_of ''IT/Technology'')"
    by code_simp
  note imp = conjunct2 [OF conjunct2 [OF categorize_occupation_first_match [of "''Military engineer''"]]]
  have "categorize_occupation (Str ''Military engineer'') = ''Military/Intelligence''"
    by (rule mp [OF imp]) (intro conjI h1 h2 h3)
  with h1 h2 h3 show ?thesis by (intro conjI)
qed

text \<open>A cell of no-break spaces is blank, as it is for \<^verbatim>\<open>str.strip\<close>.\<close>

lemma categorize_occupation_no_break_space:
  "categorize_occupation (Str [CHR 0xA0, CHR 0xA0]) = ''Unknown''"
  by code_simp

subsection \<open>\<^verbatim>\<open>extract_country_from_birth_place\<close>\<close>

text \<open>
  As claim C8 states it, a place text that is not literally a key of the table comes
  back unmodified with no code. The text \<^verbatim>\<open>" Paris"\<close> is no key, and comes back
  without its leading space.
\<close>

theorem birth_place_fallback_counterexample:
  "strip '' Paris'' \<noteq> []
   \<and> '' Paris'' \<notin> set (map fst BIRTH_PLACE_MAPPING)
   \<and> extract_country_from_birth_place (Str '' Paris'') = (Some ''Paris'', None)
   \<and> extract_country_from_birth_place (Str '' Paris'') \<noteq> (Some '' Paris'', None)"
  by code_simp

lemma birth_place_lookup_stripped:
  "extract_country_from_birth_place (Str '' Russia '') = (Some ''Russia'', Some ''RUS'')"
  "extract_country_from_birth_place (Str (''Russia'' @ [CHR 0xA0])) = (Some ''Russia'', Some ''RUS'')"
  by code_simp+

text \<open>
  Claim C8, amended. On a place text, that is a string or \<^verbatim>\<open>None\<close>: \<^verbatim>\<open>None\<close> and a
  string that is empty once stripped give \<^verbatim>\<open>(None, None)\<close>. Any other string is stripped
  of surrounding white space first. When the stripped text is not a key of the table,
  the result is the stripped text as country name with no code; when it is a key, the
  result is the table's entry for exactly that key. A text without surrounding white
  space that is no key is returned as it is.
\<close>

theorem birth_place_fallback:
  "extract_country_from_birth_place NA = (None, None)
   \<and> (strip s = [] \<longrightarrow> extract_country_from_birth_place (Str s) = (None, None))
   \<and> (strip s \<noteq> [] \<longrightarrow>
        (strip s \<notin> set (map fst BIRTH_PLACE_MAPPING)
            \<longrightarrow> extract_country_from_birth_place (Str s) = (Some (strip s), None))
      \<and> (\<forall>entry. map_of BIRTH_PLACE_MAPPING (strip s) = Some entry
            \<longrightarrow> extract_country_from_birth_place (Str s) = entry)
      \<and> (strip s = s \<and> s \<notin> set (map fst BIRTH_PLACE_MAPPING)
            \<longrightarrow> extract_country_from_birth_place (Str s) = (Some s, None)))"
proof (intro conjI impI allI)
  show "extract_country_from_birth_place NA = (None, None)"
    by (simp add: extract_country_from_birth_place_def text_blank)
  show "extract_country_from_birth_place (Str s) = (None, None)" if "strip s = []"
    using that by (simp add: extract_country_from_birth_place_def text_blank)
  show none: "extract_country_from_birth_place (Str s) = (Some (strip s), None)"
    if "strip s \<noteq> []" "strip s \<notin> set (map fst BIRTH_PLACE_MAPPING)"
  proof -
    from that(2) have "map_of BIRTH_PLACE_MAPPING (strip s) = None"
      by (simp add: map_of_eq_None_iff)
    with that(1) show ?thesis
      by (simp add: extract_country_from_birth_place_def text_blank py_str_def)
  qed
  show "extract_country_from_birth_place (Str s) = entry"
    if "strip s \<noteq> []" "map_of BIRTH_PLACE_MAPPING (strip s) = Some entry" for entry
    using that by (simp add: extract_country_from_birth_place_def text_blank py_str_def)
  show "extract_country_from_birth_place (Str s) = (Some s, None)"
    if "strip s \<noteq> []" "strip s = s \<and> s \<notin> set (map fst BIRTH_PLACE_MAPPING)"
    using none [OF that(1)] that(2) by simp
qed

theorem birth_place_fallback_witness:
  "strip ''Paris, France'' \<noteq> []
   \<and> strip ''Paris, France'' = ''Paris, France''
   \<and> ''Paris, France'' \<notin> set (map fst BIRTH_PLACE_MAPPING)
   \<and> extract_country_from_birth_place (Str ''Paris, France'') = (Some ''Paris, France'', None)"
proof -
  have h1: "strip ''Paris, France'' \<noteq> []" by code_simp
  have h2: "strip ''Paris, France'' = ''Paris, France''" by code_simp
  have h3: "''Paris, France'' \<notin> set (map fst BIRTH_PLACE_MAPPING)" by code_simp
  note c = conjunct2 [OF conjunct2 [OF
        mp [OF conjunct2 [OF conjunct2 [OF birth_place_fallback [of "''Paris, France''"]]] h1]]]
  have "extract_country_from_birth_place (Str ''Paris, France'') = (Some ''Paris, France'', None)"
    by (rule mp [OF c]) (intro conjI h2 h3)
  with h1 h2 h3 show ?thesis by (intro conjI)
qed

subsection \<open>\<^verbatim>\<open>parse_height_to_cm\<close>: boundary cases and rule order\<close>

lemma parse_height_rule_order:
  "parse_height_to_cm height =
     (if is_blank height then Inr None
      else first_rule_wins height_rules (strip (lower (py_str height))))"
  by (simp add: parse_height_to_cm_def height_rules_def Let_def
      split: sum.splits option.splits)

text \<open>
  Claim C7. \<^verbatim>\<open>"180 cm"\<close> and \<^verbatim>\<open>"1.8 m"\<close> give 180.0, \<^verbatim>\<open>"5'11"\<close> and
  \<^verbatim>\<open>"71 inches"\<close> give 180.3, the bare \<^verbatim>\<open>"70"\<close> is read as inches and gives 177.8;
  the blocks of the parser act as an ordered list of rules of which the first that
  produces a value decides.
\<close>

theorem parse_height_boundary_cases:
  "parse_height_to_cm (Str ''180 cm'') = Inr (Some 180)
   \<and> parse_height_to_cm (Str ''1.8 m'') = Inr (Some 180)
   \<and> parse_height_to_cm (Str ''5'11'') = Inr (Some (1803 / 10))
   \<and> parse_height_to_cm (Str ''71 inches'') = Inr (Some (1803 / 10))
   \<and> parse_height_to_cm (Str ''70'') = Inr (Some (1778 / 10))
   \<and> height_num ''70'' = Inr (Some (round1 (70 * (254 / 100))))
   \<and> parse_height_to_cm height =
       (if is_blank height then Inr None
        else first_rule_wins height_rules (strip (lower (py_str height))))"
proof (intro conjI)
  show "parse_height_to_cm (Str ''180 cm'') = Inr (Some 180)" by code_simp
  show "parse_height_to_cm (Str ''1.8 m'') = Inr (Some 180)" by code_simp
  show "parse_height_to_cm (Str ''5'11'') = Inr (Some (1803 / 10))" by code_simp
  show "parse_height_to_cm (Str ''71 inches'') = Inr (Some (1803 / 10))" by code_simp
  show "parse_height_to_cm (Str ''70'') = Inr (Some (1778 / 10))" by code_simp
  show "height_num ''70'' = Inr (Some (round1 (70 * (254 / 100))))" by code_simp
  show "parse_height_to_cm height =
       (if is_blank height then Inr None
        else first_rule_wins height_rules (strip (lower (py_str height))))"
    by (rule parse_height_rule_order)
qed

subsection \<open>Ranges of the derived numbers\<close>

text \<open>
  As claim C3 states it, a height is absent or between 0 and 300. The centimetre rule
  returns the number in front of \<^verbatim>\<open>cm\<close> as it is.
\<close>

theorem height_range_counterexample:
  "parse_height_to_cm (Str ''999 cm'') = Inr (Some 999) \<and> \<not> (999 :: rat) \<le> 300"
proof
  show "parse_height_to_cm (Str ''999 cm'') = Inr (Some 999)" by code_simp
  show "\<not> (999 :: rat) \<le> 300" by simp
qed

lemma height_ten_feet: "parse_height_to_cm (Str ''10 ft'') = Inr (Some (3048 / 10))"
  by code_simp


section \<open>Properties of the matcher\<close>

lemma consume_rest: "rest (consume n st) = drop n (rest st)"
  by (induction n arbitrary: st) (auto split: list.splits)

lemma consume_groups: "groups (consume n st) = groups st"
  by (induction n arbitrary: st) (auto split: list.splits)

lemma rep_counts_bounds:
  assumes "n \<in> set (rep_counts lo hi p s)"
  shows "lo \<le> n" "n \<le> length (takeWhile p s)" "case hi of None \<Rightarrow> True | Some h \<Rightarrow> n \<le> h"
  using assms by (auto simp: rep_counts_def Let_def split: option.splits)

lemma take_takeWhile_all: "n \<le> length (takeWhile p s) \<Longrightarrow> list_all p (take n s)"
proof (induction s arbitrary: n)
  case Nil
  then show ?case by simp
next
  case (Cons c cs)
  then show ?case by (cases n) (auto split: if_splits)
qed

lemma ms_lang:
  "st' \<in> set (ms r st) \<Longrightarrow> \<exists>w. rest st = w @ rest st' \<and> lang r w"
proof (induction r arbitrary: st st')
  case (Chr p)
  show ?case
  proof (cases "rest st")
    case Nil
    with Chr show ?thesis by simp
  next
    case (Cons c cs)
    with Chr have "p c" "rest st' = cs" by (auto split: if_splits)
    with Cons have "rest st = [c] @ rest st'" "lang (Chr p) [c]" by simp_all
    then show ?thesis by blast
  qed
next
  case (Rep lo hi p)
  then obtain n where n: "n \<in> set (rep_counts lo hi p (rest st))" and s: "st' = consume n st"
    by auto
  note b = rep_counts_bounds [OF n]
  have le: "n \<le> length (rest st)"
    using b(2) length_takeWhile_le [of p "rest st"] by linarith
  have "rest st = take n (rest st) @ rest st'" by (simp add: s consume_rest)
  moreover have "lang (Rep lo hi p) (take n (rest st))"
    using b le by (auto simp: take_takeWhile_all split: option.splits)
  ultimately show ?case by blast
next
  case Eps
  then show ?case by simp
next
  case (Seq a b)
  then obtain st1 where 1: "st1 \<in> set (ms a st)" and 2: "st' \<in> set (ms b st1)" by auto
  from Seq.IH(1) [OF 1] obtain u where u: "rest st = u @ rest st1" "lang a u" by blast
  from Seq.IH(2) [OF 2] obtain v where v: "rest st1 = v @ rest st'" "lang b v" by blast
  have "rest st = (u @ v) @ rest st'" using u v by simp
  moreover have "lang (Seq a b) (u @ v)" using u v by auto
  ultimately show ?case by blast
next
  case (Alt a b)
  then show ?case by fastforce
next
  case (Opt a)
  then show ?case by fastforce
next
  case (Grp g a)
  then obtain st1 where 1: "st1 \<in> set (ms a st)" and 2: "rest st' = rest st1" by auto
  from Grp.IH [OF 1] 2 show ?case by simp
next
  case WordB
  then show ?case by (auto split: if_splits)
qed

lemma ms_groups:
  "st' \<in> set (ms r st) \<Longrightarrow> groups st' g = Some x \<Longrightarrow> groups st g = Some x \<or> grp_lang r g x"
proof (induction r arbitrary: st st')
  case (Chr p)
  then show ?case by (auto split: list.splits if_splits)
next
  case (Rep lo hi p)
  then show ?case by (auto simp: consume_groups)
next
  case (Seq a b)
  then obtain st1 where 1: "st1 \<in> set (ms a st)" and 2: "st' \<in> set (ms b st1)" by auto
  from Seq.IH(2) [OF 2 Seq.prems(2)] have "groups st1 g = Some x \<or> grp_lang b g x" .
  then show ?case using Seq.IH(1) [OF 1] by auto
next
  case (Alt a b)
  then show ?case by fastforce
next
  case (Opt a)
  then show ?case by fastforce
next
  case (Grp h a)
  then obtain st1 where 1: "st1 \<in> set (ms a st)"
    and 2: "groups st' = (groups st1)(h \<mapsto> take (length (rest st) - length (rest st1)) (rest st))"
    by auto
  from ms_lang [OF 1] obtain w where w: "rest st = w @ rest st1" "lang a w" by blast
  show ?case
  proof (cases "h = g")
    case True
    with 2 Grp.prems(2) have "x = take (length (rest st) - length (rest st1)) (rest st)" by simp
    with w have "x = w" by simp
    with w True show ?thesis by simp
  next
    case False
    with 2 Grp.prems(2) have "groups st1 g = Some x" by simp
    from Grp.IH [OF 1 this] show ?thesis by auto
  qed
qed (auto split: if_splits)

lemma ms_sets:
  "st' \<in> set (ms r st) \<Longrightarrow> sets_group r g \<or> groups st g \<noteq> None \<Longrightarrow> groups st' g \<noteq> None"
proof (induction r arbitrary: st st')
  case (Seq a b)
  then obtain st1 where 1: "st1 \<in> set (ms a st)" and 2: "st' \<in> set (ms b st1)" by auto
  show ?case
  proof (cases "sets_group a g \<or> groups st g \<noteq> None")
    case True
    from Seq.IH(1) [OF 1 True] have "groups st1 g \<noteq> None" .
    then show ?thesis using Seq.IH(2) [OF 2] by blast
  next
    case False
    with Seq.prems(2) have "sets_group b g" by simp
    then show ?thesis using Seq.IH(2) [OF 2] by blast
  qed
next
  case (Grp h a)
  then obtain st1 where 1: "st1 \<in> set (ms a st)"
    and 2: "groups st' = (groups st1)(h \<mapsto> take (length (rest st) - length (rest st1)) (rest st))"
    by auto
  show ?case
  proof (cases "h = g")
    case True
    with 2 show ?thesis by simp
  next
    case False
    with Grp.prems(2) have "sets_group a g \<or> groups st g \<noteq> None" by simp
    from Grp.IH [OF 1 this] 2 False show ?thesis by simp
  qed
next
  case (Rep lo hi p)
  then show ?case by (auto simp: consume_groups)
next
  case (Alt a b)
  then show ?case by fastforce
next
  case (Opt a)
  then show ?case by fastforce
qed (auto split: list.splits if_splits)

lemma search_from_match:
  "search_from r b skipped s = Some (sk, st') \<Longrightarrow>
     \<exists>b' t pre. s = pre @ t \<and> sk = skipped @ pre \<and> st' \<in> set (ms r (start_state b' t))"
proof (induction s arbitrary: b skipped)
  case Nil
  show ?case
  proof (cases "ms r (start_state b [])")
    case Nil
    with Nil.prems show ?thesis by simp
  next
    case (Cons x xs)
    with Nil.prems have "sk = skipped" "st' = x" by simp_all
    with Cons have "[] = [] @ [] \<and> sk = skipped @ [] \<and> st' \<in> set (ms r (start_state b []))"
      by simp
    then show ?thesis by (intro exI [of _ b] exI [of _ "[]"])
  qed
next
  case (Cons c cs)
  show ?case
  proof (cases "ms r (start_state b (c # cs))")
    case Nil
    with Cons.prems have "search_from r (Some c) (skipped @ [c]) cs = Some (sk, st')" by simp
    from Cons.IH [OF this] obtain b' t pre where
      p: "cs = pre @ t" "sk = (skipped @ [c]) @ pre" "st' \<in> set (ms r (start_state b' t))"
      by (elim exE conjE)
    then have "c # cs = (c # pre) @ t \<and> sk = skipped @ (c # pre) \<and> st' \<in> set (ms r (start_state b' t))"
      by simp
    then show ?thesis by (intro exI [of _ b'] exI [of _ t] exI [of _ "c # pre"])
  next
    case (Cons x xs)
    with Cons.prems have "sk = skipped" "st' = x" by simp_all
    with Cons have "c # cs = [] @ (c # cs) \<and> sk = skipped @ [] \<and> st' \<in> set (ms r (start_state b (c # cs)))"
      by simp
    then show ?thesis by (intro exI [of _ b] exI [of _ "c # cs"] exI [of _ "[]"])
  qed
qed

lemma search_from_rest:
  assumes "search_from r b skipped s = Some (sk, st')"
  shows "length (rest st') \<le> length s"
proof -
  from search_from_match [OF assms] obtain b' t pre where
    1: "s = pre @ t" and 2: "st' \<in> set (ms r (start_state b' t))" by blast
  from ms_lang [OF 2] obtain w where "t = w @ rest st'" by (auto simp: start_state_def)
  with 1 show ?thesis by simp
qed

lemma re_search_group:
  assumes "re_search r s = Some gs" "gs g = Some x"
  shows "grp_lang r g x"
proof -
  from assms(1) obtain sk st' where 1: "search_from r None [] s = Some (sk, st')" and 2: "gs = groups st'"
    by (auto simp: re_search_def)
  from search_from_match [OF 1] obtain b' t where 3: "st' \<in> set (ms r (start_state b' t))" by blast
  from ms_groups [OF 3] assms(2) 2 show ?thesis by (auto simp: start_state_def)
qed

lemma re_search_sets:
  assumes "re_search r s = Some gs" "sets_group r g"
  shows "gs g \<noteq> None"
proof -
  from assms(1) obtain sk st' where 1: "search_from r None [] s = Some (sk, st')" and 2: "gs = groups st'"
    by (auto simp: re_search_def)
  from search_from_match [OF 1] obtain b' t where 3: "st' \<in> set (ms r (start_state b' t))" by blast
  from ms_sets [OF 3] assms(2) 2 show ?thesis by simp
qed

lemma re_search_word:
  assumes "re_search r s = Some gs"
  shows "\<exists>pre w post. s = pre @ w @ post \<and> lang r w"
proof -
  from assms(1) obtain sk st' where 1: "search_from r None [] s = Some (sk, st')"
    by (auto simp: re_search_def)
  from search_from_match [OF 1] obtain b' t pre where 3: "s = pre @ t" "st' \<in> set (ms r (start_state b' t))" by blast
  from ms_lang [OF 3(2)] obtain w where "t = w @ rest st'" "lang r w" by (auto simp: start_state_def)
  with 3 show ?thesis by blast
qed

lemma findall_from_group:
  "x \<in> set (findall_from n r g b s) \<Longrightarrow> grp_lang r g x"
proof (induction n arbitrary: b s)
  case 0
  then show ?case by simp
next
  case (Suc n)
  show ?case
  proof (cases "search_from r b [] s")
    case None
    with Suc.prems show ?thesis by simp
  next
    case (Some res)
    obtain sk st' where res: "res = (sk, st')" by (cases res)
    from search_from_match [OF Some [unfolded res]] obtain b' t where
      3: "st' \<in> set (ms r (start_state b' t))" by blast
    from Suc.prems Some res consider
      "groups st' g = Some x" | "x \<in> set (findall_from n r g (prev st') (rest st'))"
      by (auto split: if_splits option.splits)
    then show ?thesis
    proof cases
      case 1
      from ms_groups [OF 3 1] show ?thesis by (simp add: start_state_def)
    next
      case 2
      then show ?thesis by (rule Suc.IH)
    qed
  qed
qed

lemma re_findall_group: "x \<in> set (re_findall r g s) \<Longrightarrow> grp_lang r g x"
  by (auto simp: re_findall_def dest: findall_from_group)

subsection \<open>Numbers read from captured text\<close>

lemma digit_val_range: "is_digit c \<Longrightarrow> 0 \<le> digit_val c \<and> digit_val c \<le> 9"
  by (auto simp: is_digit_def digit_val_def)

lemma digit_not_space: "is_digit c \<Longrightarrow> \<not> is_space c"
  by (auto simp: is_digit_def is_space_def)

lemma digit_not_sign: "is_digit c \<Longrightarrow> c \<noteq> CHR ''-'' \<and> c \<noteq> CHR ''+'' \<and> c \<noteq> CHR ''.''"
  by (auto simp: is_digit_def)

lemma foldl_digits_nonneg:
  "0 \<le> a \<Longrightarrow> list_all is_digit s \<Longrightarrow> 0 \<le> foldl (\<lambda>a c. 10 * a + digit_val c) a s"
proof (induction s arbitrary: a)
  case Nil
  then show ?case by simp
next
  case (Cons c cs)
  then have "0 \<le> 10 * a + digit_val c" using digit_val_range [of c] by simp
  with Cons show ?case by simp
qed

lemma digits_val_nonneg: "list_all is_digit s \<Longrightarrow> 0 \<le> digits_val s"
  unfolding digits_val_def by (rule foldl_digits_nonneg) simp

lemma strip_id: "s \<noteq> [] \<Longrightarrow> \<not> is_space (hd s) \<Longrightarrow> \<not> is_space (last s) \<Longrightarrow> strip s = s"
proof -
  assume a: "s \<noteq> []" "\<not> is_space (hd s)" "\<not> is_space (last s)"
  then have 1: "dropWhile is_space s = s" by (cases s) auto
  from a have "rev s \<noteq> []" "\<not> is_space (hd (rev s))" by (simp_all add: hd_rev)
  then have "dropWhile is_space (rev s) = rev s" by (cases "rev s") auto
  with 1 show ?thesis by (simp add: strip_def)
qed

lemma all_digits_strip: "all_digits s \<Longrightarrow> strip s = s"
proof (rule strip_id)
  assume a: "all_digits s"
  then show "s \<noteq> []" by (simp add: all_digits_def)
  with a have "is_digit (hd s)" "is_digit (last s)" by (auto simp: all_digits_def list_all_iff)
  then show "\<not> is_space (hd s)" "\<not> is_space (last s)" by (simp_all add: digit_not_space)
qed

lemma py_int_digits:
  "all_digits s \<Longrightarrow>
     py_int s = (if length s \<le> max_str_digits then Inr (digits_val s) else Inl ValueError)"
proof -
  assume a: "all_digits s"
  then obtain c cs where s: "s = c # cs" by (cases s) (auto simp: all_digits_def)
  with a have "is_digit c" by (simp add: all_digits_def)
  then have "c \<noteq> CHR ''-''" "c \<noteq> CHR ''+''" using digit_not_sign by blast+
  with a s show ?thesis by (simp add: py_int_def int_digits_def all_digits_strip)
qed

lemma py_int_short: "all_digits s \<Longrightarrow> length s \<le> 4 \<Longrightarrow> py_int s = Inr (digits_val s)"
  by (simp add: py_int_digits max_str_digits_def)

lemma unsigned_float_digits: "all_digits ds \<Longrightarrow> unsigned_float ds = Inr (of_int (digits_val ds))"
proof -
  assume a: "all_digits ds"
  then have tw: "takeWhile is_digit ds = ds" and dw: "dropWhile is_digit ds = []" and ne: "ds \<noteq> []"
    by (auto simp: all_digits_def list_all_iff)
  show ?thesis unfolding unsigned_float_def Let_def tw dw using ne by simp
qed

lemma unsigned_float_fraction:
  assumes "all_digits ds" "all_digits fs"
  shows "unsigned_float (ds @ CHR ''.'' # fs) =
    Inr (of_int (digits_val ds) + of_int (digits_val fs) / 10 ^ length fs)"
proof -
  have nd: "\<not> is_digit CHR ''.''" by (simp add: is_digit_def)
  from assms(1) have al: "\<And>x. x \<in> set ds \<Longrightarrow> is_digit x" and ne: "ds \<noteq> []"
    by (simp_all add: all_digits_def list_all_iff)
  have tw: "takeWhile is_digit (ds @ CHR ''.'' # fs) = ds"
    using al nd by (simp add: takeWhile_append2)
  have dw: "dropWhile is_digit (ds @ CHR ''.'' # fs) = CHR ''.'' # fs"
    using al nd by (simp add: dropWhile_append2)
  show ?thesis unfolding unsigned_float_def Let_def tw dw using ne assms(2) by simp
qed

lemma py_float_unsigned:
  assumes "is_digit c" "is_digit (last (c # cs))"
  shows "py_float (c # cs) = unsigned_float (c # cs)"
proof -
  have "strip (c # cs) = c # cs"
    using assms by (intro strip_id) (simp_all add: digit_not_space)
  then show ?thesis using digit_not_sign [OF assms(1)] by (simp add: py_float_def)
qed

lemma py_float_decimal:
  assumes "decimal x"
  shows "\<exists>v. py_float x = Inr v \<and> 0 \<le> v"
proof -
  from assms obtain ds fs where d: "all_digits ds" and x: "x = ds \<or> (all_digits fs \<and> x = ds @ CHR ''.'' # fs)"
    by (auto simp: decimal_def)
  from d obtain c cs where ds: "ds = c # cs" and c: "is_digit c" by (cases ds) (auto simp: all_digits_def)
  from x show ?thesis
  proof
    assume e: "x = ds"
    have "is_digit (last (c # cs))" using d ds by (auto simp: all_digits_def list_all_iff)
    from py_float_unsigned [OF c this] have "py_float x = unsigned_float ds" by (simp add: e ds)
    with d show ?thesis by (simp add: unsigned_float_digits digits_val_nonneg all_digits_def)
  next
    assume a: "all_digits fs \<and> x = ds @ CHR ''.'' # fs"
    then have nn: "0 \<le> digits_val fs" "0 \<le> digits_val ds" using d by (simp_all add: digits_val_nonneg all_digits_def)
    have e: "x = c # (cs @ CHR ''.'' # fs)" using a ds by simp
    have "is_digit (last (c # (cs @ CHR ''.'' # fs)))" using a by (auto simp: all_digits_def list_all_iff)
    from py_float_unsigned [OF c this] have "py_float x = unsigned_float (ds @ CHR ''.'' # fs)"
      by (simp add: e ds)
    moreover have "(0::rat) \<le> of_int (digits_val ds) + of_int (digits_val fs) / 10 ^ length fs"
      using nn by simp
    ultimately show ?thesis using a d by (simp add: unsigned_float_fraction)
  qed
qed

lemma round1_nonneg: "0 \<le> x \<Longrightarrow> 0 \<le> round1 x"
proof -
  assume "0 \<le> x"
  then have "0 \<le> \<lfloor>x * 10\<rfloor>" by simp
  then show ?thesis by (simp add: round1_def Let_def)
qed

lemma lit_Nil: "lit [] = Eps" by (simp add: lit_def)
lemma lit_Cons: "lit (c # cs) = Seq (Chr (\<lambda>x. x = c)) (lit cs)" by (simp add: lit_def)
lemma liti_Nil: "liti [] = Eps" by (simp add: liti_def)
lemma liti_Cons: "liti (c # cs) = Seq (Chr (\<lambda>x. lower_char x = lower_char c)) (liti cs)"
  by (simp add: liti_def)
lemma seqs_Nil: "seqs [] = Eps" by (simp add: seqs_def)
lemma seqs_Cons: "seqs (r # rs) = Seq r (seqs rs)" by (simp add: seqs_def)
lemma alts_Nil: "alts [] = Chr (\<lambda>_. False)" by (simp add: alts_def)
lemma alts_Cons: "alts (r # rs) = Alt r (alts rs)" by (simp add: alts_def)

lemmas pattern_simps = lit_Nil lit_Cons liti_Nil liti_Cons seqs_Nil seqs_Cons alts_Nil alts_Cons

lemma lang_lit: "lang (lit s) w \<longleftrightarrow> w = s"
  by (induction s arbitrary: w) (auto simp: pattern_simps)

lemma grp_lang_lit: "\<not> grp_lang (lit s) g x"
  by (induction s) (auto simp: pattern_simps)

lemma grp_lang_liti: "\<not> grp_lang (liti s) g x"
  by (induction s) (auto simp: pattern_simps)

lemma sets_group_lit: "\<not> sets_group (lit s) g"
  by (induction s) (auto simp: pattern_simps)

lemma lang_digits:
  assumes "lang (Rep lo hi is_digit) x" "1 \<le> lo"
  shows "all_digits x"
proof -
  from assms have "list_all is_digit x" "1 \<le> length x" by auto
  then show ?thesis by (cases x) (auto simp: all_digits_def)
qed

lemma lang_point_digits:
  assumes "lang (Seq (lit ''.'') (Rep lo hi is_digit)) v" "1 \<le> lo"
  shows "\<exists>fs. v = CHR ''.'' # fs \<and> all_digits fs"
proof -
  from assms(1) obtain u fs where v: "v = u @ fs" and u: "lang (lit ''.'') u"
    and fs: "lang (Rep lo hi is_digit) fs" by auto
  from u have "u = ''.''" by (simp add: lang_lit)
  with v lang_digits [OF fs assms(2)] show ?thesis by simp
qed

lemma lang_fraction:
  assumes "lang (Seq (Rep lo hi is_digit) (Opt (Seq (lit ''.'') (Rep lo' hi' is_digit)))) x"
    "1 \<le> lo" "1 \<le> lo'"
  shows "decimal x"
proof -
  from assms(1) obtain u v where x: "x = u @ v" and u: "lang (Rep lo hi is_digit) u"
    and v: "v = [] \<or> lang (Seq (lit ''.'') (Rep lo' hi' is_digit)) v" by auto
  from u assms(2) have du: "all_digits u" by (rule lang_digits)
  from v show ?thesis
  proof
    assume "v = []"
    with x du show ?thesis by (auto simp: decimal_def)
  next
    assume "lang (Seq (lit ''.'') (Rep lo' hi' is_digit)) v"
    from lang_point_digits [OF this assms(3)] obtain fs where "v = CHR ''.'' # fs" "all_digits fs"
      by blast
    with x du show ?thesis by (auto simp: decimal_def)
  qed
qed

lemma lang_number:
  assumes "lang (number lo hi) x" "1 \<le> lo"
  shows "decimal x"
proof -
  from assms(1) have "lang (Seq (Rep lo hi is_digit) (Opt (Seq (lit ''.'') (Rep 1 None is_digit)))) x"
    by (simp only: number_def)
  from lang_fraction [OF this assms(2)] show ?thesis by simp
qed

lemma lang_one_digit_fraction:
  assumes "lang (Seq (Chr is_digit) (Opt (Seq (lit ''.'') (Rep lo' hi' is_digit)))) x" "1 \<le> lo'"
  shows "decimal x"
proof -
  from assms(1) obtain u v where x: "x = u @ v" and u: "lang (Chr is_digit) u"
    and v: "v = [] \<or> lang (Seq (lit ''.'') (Rep lo' hi' is_digit)) v" by auto
  from u have du: "all_digits u" by (auto simp: all_digits_def)
  from v show ?thesis
  proof
    assume "v = []"
    with x du show ?thesis by (auto simp: decimal_def)
  next
    assume "lang (Seq (lit ''.'') (Rep lo' hi' is_digit)) v"
    from lang_point_digits [OF this assms(2)] obtain fs where "v = CHR ''.'' # fs" "all_digits fs"
      by blast
    with x du show ?thesis by (auto simp: decimal_def)
  qed
qed

lemma grp_lang_number: "\<not> grp_lang (number lo hi) g x"
  by (simp add: number_def grp_lang_lit pattern_simps)

subsection \<open>What the groups of the measurement patterns capture\<close>

lemma float_group_decimal:
  assumes "re_search r s = Some g" "sets_group r i" "\<And>x. grp_lang r i x \<Longrightarrow> decimal x"
  shows "\<exists>v. float_group g i = Inr v \<and> 0 \<le> v"
proof -
  from re_search_sets [OF assms(1,2)] obtain x where x: "g i = Some x" by auto
  from re_search_group [OF assms(1) x] have "decimal x" by (rule assms(3))
  from py_float_decimal [OF this] x show ?thesis by (simp add: float_group_def)
qed

lemma grp_number: "grp_lang (Grp i (number lo hi)) i x \<Longrightarrow> 1 \<le> lo \<Longrightarrow> decimal x"
  by (auto simp: grp_lang_number dest: lang_number)

lemma cm_pattern_group: "sets_group cm_pattern 1" "grp_lang cm_pattern 1 x \<Longrightarrow> decimal x"
proof -
  show "sets_group cm_pattern 1" by (simp add: cm_pattern_def seqs_Cons)
  assume "grp_lang cm_pattern 1 x"
  then have "grp_lang (Grp 1 (number 2 (Some 3))) 1 x"
    by (simp add: cm_pattern_def seqs_Cons seqs_Nil grp_lang_lit)
  then show "decimal x" by (rule grp_number) simp
qed

lemma m_pattern_group: "sets_group m_pattern 1" "grp_lang m_pattern 1 x \<Longrightarrow> decimal x"
proof -
  show "sets_group m_pattern 1" by (simp add: m_pattern_def seqs_Cons)
  assume "grp_lang m_pattern 1 x"
  then have "lang (Seq (Chr is_digit) (Opt (Seq (lit ''.'') (digits 1 2)))) x"
    by (simp add: m_pattern_def seqs_Cons seqs_Nil grp_lang_lit)
  then show "decimal x" by (rule lang_one_digit_fraction) simp
qed

lemma grp_lang_alts_lit: "\<not> grp_lang (alts (map lit ws)) g x"
  by (induction ws) (auto simp: alts_Nil alts_Cons grp_lang_lit)

lemma in_pattern_group: "sets_group in_pattern 1" "grp_lang in_pattern 1 x \<Longrightarrow> decimal x"
proof -
  show "sets_group in_pattern 1" by (simp add: in_pattern_def seqs_Cons)
  assume "grp_lang in_pattern 1 x"
  then have "grp_lang (Grp 1 (number 2 (Some 3))) 1 x"
    by (simp add: in_pattern_def seqs_Cons seqs_Nil alts_Cons alts_Nil grp_lang_lit)
  then show "decimal x" by (rule grp_number) simp
qed

lemma num_pattern_group: "sets_group num_pattern 1" "grp_lang num_pattern 1 x \<Longrightarrow> decimal x"
proof -
  show "sets_group num_pattern 1" by (simp add: num_pattern_def)
  assume "grp_lang num_pattern 1 x"
  then show "decimal x" unfolding num_pattern_def by (rule grp_number) simp
qed

lemma kg_pattern_group: "grp_lang kg_pattern 1 x \<Longrightarrow> decimal x"
proof -
  assume "grp_lang kg_pattern 1 x"
  then have "grp_lang (Grp 1 (number 1 None)) 1 x"
    by (simp add: kg_pattern_def seqs_Cons seqs_Nil grp_lang_lit)
  then show "decimal x" by (rule grp_number) simp
qed

lemma lb_pattern_group:
  assumes "grp_lang lb_pattern 1 x"
  shows "decimal x"
proof -
  from assms have "grp_lang (Grp 1 (number 1 None)) 1 x" by (simp only: lb_pattern_def)
  then show ?thesis by (rule grp_number) simp
qed

lemma grp_digits:
  assumes "grp_lang (Grp i (Rep lo hi is_digit)) i x" "1 \<le> lo"
  shows "all_digits x"
proof -
  from assms(1) have "lang (Rep lo hi is_digit) x" by simp
  then show ?thesis using assms(2) by (rule lang_digits)
qed

lemma ft_in_pattern1_group:
  "sets_group ft_in_pattern1 1" "grp_lang ft_in_pattern1 1 x \<Longrightarrow> all_digits x"
  "grp_lang ft_in_pattern1 2 x \<Longrightarrow> all_digits x"
proof -
  show "sets_group ft_in_pattern1 1" by (simp add: ft_in_pattern1_def seqs_Cons)
  show "all_digits x" if "grp_lang ft_in_pattern1 1 x"
  proof -
    from that have "grp_lang (Grp 1 digits1) 1 x"
      by (simp add: ft_in_pattern1_def seqs_Cons seqs_Nil alts_Cons alts_Nil grp_lang_lit)
    then show ?thesis by (rule grp_digits) simp
  qed
  show "all_digits x" if "grp_lang ft_in_pattern1 2 x"
  proof -
    from that have "grp_lang (Grp 2 (digits 1 2)) 2 x"
      by (simp add: ft_in_pattern1_def seqs_Cons seqs_Nil alts_Cons alts_Nil grp_lang_lit)
    then show ?thesis by (rule grp_digits) simp
  qed
qed

lemma ft_in_pattern2_group:
  "sets_group ft_in_pattern2 1" "grp_lang ft_in_pattern2 1 x \<Longrightarrow> all_digits x"
  "grp_lang ft_in_pattern2 2 x \<Longrightarrow> all_digits x"
proof -
  show "sets_group ft_in_pattern2 1" by (simp add: ft_in_pattern2_def seqs_Cons)
  show "all_digits x" if "grp_lang ft_in_pattern2 1 x"
  proof -
    from that have "grp_lang (Grp 1 digits1) 1 x"
      by (simp add: ft_in_pattern2_def seqs_Cons seqs_Nil grp_lang_lit)
    then show ?thesis by (rule grp_digits) simp
  qed
  show "all_digits x" if "grp_lang ft_in_pattern2 2 x"
  proof -
    from that have "grp_lang (Grp 2 (digits 1 2)) 2 x"
      by (simp add: ft_in_pattern2_def seqs_Cons seqs_Nil grp_lang_lit)
    then show ?thesis by (rule grp_digits) simp
  qed
qed

lemma height_cm_ok: "\<exists>r. height_cm s = Inr r \<and> (\<forall>v. r = Some v \<longrightarrow> 0 \<le> v)"
proof (cases "re_search cm_pattern s")
  case None
  then show ?thesis by (simp add: height_cm_def)
next
  case (Some g)
  from float_group_decimal [OF Some cm_pattern_group] obtain v where "float_group g 1 = Inr v" "0 \<le> v"
    by blast
  with Some show ?thesis by (simp add: height_cm_def bind_err_def)
qed

lemma height_m_ok: "\<exists>r. height_m s = Inr r \<and> (\<forall>v. r = Some v \<longrightarrow> 0 \<le> v)"
proof (cases "re_search m_pattern s")
  case None
  then show ?thesis by (simp add: height_m_def)
next
  case (Some g)
  from float_group_decimal [OF Some m_pattern_group] obtain v where "float_group g 1 = Inr v" "0 \<le> v"
    by blast
  with Some show ?thesis by (simp add: height_m_def bind_err_def round1_nonneg)
qed

lemma height_in_ok: "\<exists>r. height_in s = Inr r \<and> (\<forall>v. r = Some v \<longrightarrow> 0 \<le> v)"
proof (cases "re_search in_pattern s")
  case None
  then show ?thesis by (simp add: height_in_def)
next
  case (Some g)
  from float_group_decimal [OF Some in_pattern_group] obtain v where "float_group g 1 = Inr v" "0 \<le> v"
    by blast
  with Some show ?thesis by (simp add: height_in_def bind_err_def round1_nonneg)
qed

lemma height_num_ok: "\<exists>r. height_num s = Inr r \<and> (\<forall>v. r = Some v \<longrightarrow> 0 \<le> v)"
proof (cases "re_search num_pattern s")
  case None
  then show ?thesis by (simp add: height_num_def)
next
  case (Some g)
  from float_group_decimal [OF Some num_pattern_group] obtain v where "float_group g 1 = Inr v" "0 \<le> v"
    by blast
  with Some show ?thesis by (simp add: height_num_def bind_err_def round1_nonneg)
qed


lemma ft_groups:
  assumes "(case re_search ft_in_pattern1 s of Some g \<Rightarrow> Some g | None \<Rightarrow> re_search ft_in_pattern2 s) = Some g"
  shows "\<exists>x. g 1 = Some x \<and> all_digits x" "\<And>y. g 2 = Some y \<Longrightarrow> all_digits y"
proof -
  from assms consider "re_search ft_in_pattern1 s = Some g" | "re_search ft_in_pattern2 s = Some g"
    by (auto split: option.splits)
  then have "(\<exists>x. g 1 = Some x \<and> all_digits x) \<and> (\<forall>y. g 2 = Some y \<longrightarrow> all_digits y)"
  proof cases
    case 1
    from re_search_sets [OF 1 ft_in_pattern1_group(1)] obtain x where "g 1 = Some x" by auto
    then show ?thesis
      using re_search_group [OF 1] ft_in_pattern1_group(2,3) by blast
  next
    case 2
    from re_search_sets [OF 2 ft_in_pattern2_group(1)] obtain x where "g 1 = Some x" by auto
    then show ?thesis
      using re_search_group [OF 2] ft_in_pattern2_group(2,3) by blast
  qed
  then show "\<exists>x. g 1 = Some x \<and> all_digits x" "\<And>y. g 2 = Some y \<Longrightarrow> all_digits y" by blast+
qed

lemma height_ft_in_ok:
  assumes "height_ft_in s = Inr (Some v)"
  shows "0 \<le> v"
proof (cases "case re_search ft_in_pattern1 s of Some g \<Rightarrow> Some g | None \<Rightarrow> re_search ft_in_pattern2 s")
  case None
  with assms show ?thesis by (simp add: height_ft_in_def)
next
  case (Some g)
  from ft_groups [OF Some] obtain x where x: "g 1 = Some x" "all_digits x"
    and y: "\<And>y. g 2 = Some y \<Longrightarrow> all_digits y" by blast
  from assms obtain ft inch n where r: "int_group g 1 = Inr ft"
    "(case g 2 of None \<Rightarrow> Inr 0 | Some w \<Rightarrow> py_int w) = Inr inch"
    "int_to_float (ft * 12 + inch) = Inr n" "v = round1 (n * (254 / 100))"
    unfolding height_ft_in_def Some by (auto simp: bind_err_def split: sum.splits)
  from r(1) x have "ft = digits_val x"
    by (simp add: int_group_def py_int_digits split: if_splits)
  with x(2) have ft: "0 \<le> ft" by (simp add: digits_val_nonneg all_digits_def)
  have inch: "0 \<le> inch"
  proof (cases "g 2")
    case None
    with r(2) show ?thesis by simp
  next
    case (Some w)
    with r(2) y [OF Some] have "inch = digits_val w" by (simp add: py_int_digits split: if_splits)
    with y [OF Some] show ?thesis by (simp add: digits_val_nonneg all_digits_def)
  qed
  from r(3) have "n = of_int (ft * 12 + inch)" by (simp add: int_to_float_def split: if_splits)
  with ft inch have "0 \<le> n * (254 / 100)" by simp
  with r(4) show ?thesis by (simp add: round1_nonneg)
qed

lemma parse_height_ok:
  assumes "parse_height_to_cm c = Inr (Some v)"
  shows "0 \<le> v"
proof -
  define s where "s = strip (lower (py_str c))"
  obtain r1 where r1: "height_cm s = Inr r1" "\<And>v. r1 = Some v \<Longrightarrow> 0 \<le> v" using height_cm_ok by blast
  obtain r2 where r2: "height_m s = Inr r2" "\<And>v. r2 = Some v \<Longrightarrow> 0 \<le> v" using height_m_ok by blast
  obtain r3 where r3: "height_in s = Inr r3" "\<And>v. r3 = Some v \<Longrightarrow> 0 \<le> v" using height_in_ok by blast
  obtain r5 where r5: "height_num s = Inr r5" "\<And>v. r5 = Some v \<Longrightarrow> 0 \<le> v" using height_num_ok by blast
  note r4 = height_ft_in_ok [of s v]
  from assms show ?thesis
    unfolding parse_height_to_cm_def Let_def s_def [symmetric]
    using r1 r2 r3 r4 r5
    by (auto split: sum.splits option.splits if_splits)
qed

subsection \<open>\<^verbatim>\<open>parse_weight_to_kg\<close> raises nothing\<close>

lemma map_err_ok:
  "(\<And>x. x \<in> set xs \<Longrightarrow> \<exists>v. f x = Inr v) \<Longrightarrow> \<exists>vs. map_err f xs = Inr vs \<and> length vs = length xs"
proof (induction xs)
  case Nil
  then show ?case by simp
next
  case (Cons x xs)
  then obtain v vs where "f x = Inr v" "map_err f xs = Inr vs" "length vs = length xs"
    by (metis list.set_intros(1,2))
  then show ?case by (simp add: bind_err_def)
qed

lemma map_err_Inr:
  "map_err f xs = Inr vs \<Longrightarrow> length vs = length xs \<and> (\<forall>i < length xs. f (xs ! i) = Inr (vs ! i))"
proof (induction xs arbitrary: vs)
  case Nil
  then show ?case by simp
next
  case (Cons x xs)
  then obtain v ws where 1: "f x = Inr v" "map_err f xs = Inr ws" "vs = v # ws"
    by (auto simp: bind_err_def split: sum.splits)
  from Cons.IH [OF 1(2)] 1 show ?case by (auto simp: nth_Cons split: nat.splits)
qed

lemma map_err_total: "map_err (\<lambda>x. Inr (f x)) xs = Inr (map f xs)"
  by (induction xs) (simp_all add: bind_err_def)

lemma map_err_Inl:
  "map_err f xs = Inl e \<Longrightarrow> \<exists>x \<in> set xs. f x = Inl e"
proof (induction xs)
  case Nil
  then show ?case by simp
next
  case (Cons x xs)
  then show ?case by (auto simp: bind_err_def split: sum.splits)
qed

lemma parse_weight_ok: "\<exists>r. parse_weight_to_kg c = Inr r"
proof -
  have kg: "\<exists>vs. map_err py_float (re_findall kg_pattern 1 s) = Inr vs" for s
    using map_err_ok [of "re_findall kg_pattern 1 s" py_float]
      re_findall_group kg_pattern_group py_float_decimal by blast
  have lb: "\<exists>vs. map_err py_float (re_findall lb_pattern 1 s) = Inr vs" for s
    using map_err_ok [of "re_findall lb_pattern 1 s" py_float]
      re_findall_group lb_pattern_group py_float_decimal by blast
  obtain v1 where v1: "map_err py_float (re_findall kg_pattern 1 (lower (py_str c))) = Inr v1"
    using kg by blast
  obtain v2 where v2: "map_err py_float (re_findall lb_pattern 1 (lower (py_str c))) = Inr v2"
    using lb by blast
  show ?thesis
    using v1 v2 by (simp add: parse_weight_to_kg_def Let_def bind_err_def)
qed

subsection \<open>\<^verbatim>\<open>parse_date\<close> raises nothing and returns calendar dates\<close>

lemma py_date_cases: "py_date y m d = Inl ValueError \<or> (py_date y m d = Inr \<lparr>year = y, month = m, day = d\<rparr> \<and> valid_date y m d)"
  by (simp add: py_date_def)

lemma parse_date_with_format_ok:
  "\<exists>r. parse_date_with_format text fmt = Inr r \<and> (\<forall>d. r = Some d \<longrightarrow> valid_date (year d) (month d) (day d))"
proof (cases "re_match (format_regex fmt) text")
  case None
  then show ?thesis by (simp add: parse_date_with_format_def strptime_def)
next
  case (Some st)
  show ?thesis
  proof (cases "rest st = []")
    case False
    with Some show ?thesis by (simp add: parse_date_with_format_def strptime_def)
  next
    case True
    with Some show ?thesis
      using py_date_cases [of "found_year (groups st)" "found_month (groups st)" "found_day (groups st)"]
      by (auto simp: parse_date_with_format_def strptime_def)
  qed
qed

lemma iso_pattern_group:
  "sets_group iso_pattern 0" "sets_group iso_pattern 1" "sets_group iso_pattern 2"
  "i \<in> {0, 1, 2} \<Longrightarrow> grp_lang iso_pattern i x \<Longrightarrow> all_digits x \<and> length x \<le> 4"
proof -
  show "sets_group iso_pattern 0" "sets_group iso_pattern 1" "sets_group iso_pattern 2"
    by (simp_all add: iso_pattern_def seqs_Cons)
  assume "i \<in> {0, 1, 2}" "grp_lang iso_pattern i x"
  then have "lang (digits 4 4) x \<or> lang (digits 1 2) x"
    by (auto simp: iso_pattern_def seqs_Cons seqs_Nil grp_lang_lit)
  then show "all_digits x \<and> length x \<le> 4" by (auto simp: all_digits_def)
qed

lemma slash_pattern_group:
  "sets_group slash_pattern 0" "sets_group slash_pattern 1" "sets_group slash_pattern 2"
  "i \<in> {0, 1, 2} \<Longrightarrow> grp_lang slash_pattern i x \<Longrightarrow> all_digits x \<and> length x \<le> 4"
proof -
  show "sets_group slash_pattern 0" "sets_group slash_pattern 1" "sets_group slash_pattern 2"
    by (simp_all add: slash_pattern_def seqs_Cons)
  assume "i \<in> {0, 1, 2}" "grp_lang slash_pattern i x"
  then have "lang (digits 2 4) x \<or> lang (digits 1 2) x"
    by (auto simp: slash_pattern_def seqs_Cons seqs_Nil grp_lang_lit)
  then show "all_digits x \<and> length x \<le> 4" by (auto simp: all_digits_def)
qed

lemma int_group_digits:
  assumes "re_search r s = Some g" "sets_group r i"
    and "\<And>x. grp_lang r i x \<Longrightarrow> all_digits x \<and> length x \<le> 4"
  shows "\<exists>n. int_group g i = Inr n"
proof -
  from re_search_sets [OF assms(1,2)] obtain x where x: "g i = Some x" by auto
  from re_search_group [OF assms(1) x] have "all_digits x \<and> length x \<le> 4" by (rule assms(3))
  with x show ?thesis by (simp add: int_group_def py_int_short)
qed

lemma parse_date_with_regex_ok:
  assumes "\<And>i. i \<in> {0, 1, 2} \<Longrightarrow> sets_group p i"
    and "\<And>i x. i \<in> {0, 1, 2} \<Longrightarrow> grp_lang p i x \<Longrightarrow> all_digits x \<and> length x \<le> 4"
    and "yg \<in> {0, 1, 2}" "mg \<in> {0, 1, 2}" "dg \<in> {0, 1, 2}"
  shows "\<exists>r. parse_date_with_regex s p yg mg dg = Inr r \<and> (\<forall>d. r = Some d \<longrightarrow> valid_date (year d) (month d) (day d))"
proof (cases "re_search p s")
  case None
  then show ?thesis by (simp add: parse_date_with_regex_def)
next
  case (Some g)
  have ig: "\<exists>n. int_group g i = Inr n" if "i \<in> {0, 1, 2}" for i
  proof (rule int_group_digits [OF Some])
    show "sets_group p i" using that by (rule assms(1))
    show "all_digits x \<and> length x \<le> 4" if "grp_lang p i x" for x
      using \<open>i \<in> {0, 1, 2}\<close> that by (rule assms(2))
  qed
  from ig [OF assms(3)] obtain y0 where y: "int_group g yg = Inr y0" ..
  from ig [OF assms(4)] obtain m where m: "int_group g mg = Inr m" ..
  from ig [OF assms(5)] obtain d where d: "int_group g dg = Inr d" ..
  define y where "y = (if length (show_int y0) = 2 then y0 + (if y0 > 25 then 1900 else 2000) else y0)"
  have e: "parse_date_with_regex s p yg mg dg =
    (case py_date y m d of Inr d \<Rightarrow> Inr (Some d) | Inl ValueError \<Rightarrow> Inr None | Inl e \<Rightarrow> Inl e)"
    by (simp add: parse_date_with_regex_def Some y m d bind_err_def Let_def y_def)
  from py_date_cases [of y m d] show ?thesis unfolding e by auto
qed

lemma first_date_ok:
  assumes "\<And>x. x \<in> set xs \<Longrightarrow> \<exists>r. f x = Inr r \<and> (\<forall>d. r = Some d \<longrightarrow> P d)"
  shows "\<exists>r. first_date f xs = Inr r \<and> (\<forall>d. r = Some d \<longrightarrow> P d)"
  using assms
proof (induction xs)
  case Nil
  then show ?case by simp
next
  case (Cons x xs)
  from Cons.prems [of x] obtain r where r: "f x = Inr r" "\<forall>d. r = Some d \<longrightarrow> P d" by auto
  have "\<exists>r. first_date f xs = Inr r \<and> (\<forall>d. r = Some d \<longrightarrow> P d)"
    by (rule Cons.IH) (simp add: Cons.prems)
  with r show ?case by (cases r) auto
qed

lemma date_patterns_ok:
  assumes "x \<in> set date_patterns"
  shows "\<exists>r. (\<lambda>(pattern, yg, mg, dg). parse_date_with_regex t pattern yg mg dg) x = Inr r
      \<and> (\<forall>d. r = Some d \<longrightarrow> valid_date (year d) (month d) (day d))"
proof -
  from assms consider "x = (iso_pattern, 0, 1, 2)" | "x = (slash_pattern, 2, 0, 1)"
    by (auto simp: date_patterns_def)
  then show ?thesis
  proof cases
    case 1
    have "\<exists>r. parse_date_with_regex t iso_pattern 0 1 2 = Inr r
      \<and> (\<forall>d. r = Some d \<longrightarrow> valid_date (year d) (month d) (day d))"
    proof (rule parse_date_with_regex_ok)
      show "sets_group iso_pattern i" if "i \<in> {0, 1, 2}" for i
        using that iso_pattern_group(1,2,3) by auto
      show "all_digits x \<and> length x \<le> 4" if "i \<in> {0, 1, 2}" "grp_lang iso_pattern i x" for i x
        using that by (rule iso_pattern_group(4))
    qed simp_all
    with 1 show ?thesis by simp
  next
    case 2
    have "\<exists>r. parse_date_with_regex t slash_pattern 2 0 1 = Inr r
      \<and> (\<forall>d. r = Some d \<longrightarrow> valid_date (year d) (month d) (day d))"
    proof (rule parse_date_with_regex_ok)
      show "sets_group slash_pattern i" if "i \<in> {0, 1, 2}" for i
        using that slash_pattern_group(1,2,3) by auto
      show "all_digits x \<and> length x \<le> 4" if "i \<in> {0, 1, 2}" "grp_lang slash_pattern i x" for i x
        using that by (rule slash_pattern_group(4))
    qed simp_all
    with 2 show ?thesis by simp
  qed
qed

lemma parse_date_ok:
  "\<exists>r. parse_date c = Inr r \<and> (\<forall>d. r = Some d \<longrightarrow> valid_date (year d) (month d) (day d))"
proof (cases "is_blank c")
  case True
  then show ?thesis by (simp add: parse_date_def)
next
  case False
  define t where "t = strip (py_str c)"
  have "\<exists>r. first_date (parse_date_with_format t) date_formats = Inr r
      \<and> (\<forall>d. r = Some d \<longrightarrow> valid_date (year d) (month d) (day d))"
    by (rule first_date_ok) (rule parse_date_with_format_ok)
  then obtain r1 where r1: "first_date (parse_date_with_format t) date_formats = Inr r1"
    "\<forall>d. r1 = Some d \<longrightarrow> valid_date (year d) (month d) (day d)"
    by (elim exE conjE)
  have "\<exists>r. first_date (\<lambda>(pattern, yg, mg, dg). parse_date_with_regex t pattern yg mg dg) date_patterns = Inr r
      \<and> (\<forall>d. r = Some d \<longrightarrow> valid_date (year d) (month d) (day d))"
    by (rule first_date_ok) (rule date_patterns_ok)
  then obtain r2 where r2: "first_date (\<lambda>(pattern, yg, mg, dg). parse_date_with_regex t pattern yg mg dg) date_patterns = Inr r2"
    "\<forall>d. r2 = Some d \<longrightarrow> valid_date (year d) (month d) (day d)"
    by (elim exE conjE)
  show ?thesis
  proof (cases r1)
    case None
    with False r1 r2 show ?thesis by (simp add: parse_date_def Let_def t_def [symmetric])
  next
    case (Some d)
    with False r1 show ?thesis by (simp add: parse_date_def Let_def t_def [symmetric])
  qed
qed

lemma compute_age_nonneg: "compute_age b ref = Some n \<Longrightarrow> 0 \<le> n"
  by (auto simp: compute_age_def Let_def split: option.splits if_splits)

subsection \<open>The derived numbers are never negative\<close>

text \<open>
  Claim C3, amended. Whatever \<^verbatim>\<open>parse_height_to_cm\<close> returns is \<^verbatim>\<open>None\<close> or a number that
  is not negative, and whatever \<^verbatim>\<open>compute_age\<close> returns is \<^verbatim>\<open>None\<close> or an integer that is
  not negative: no negative value stands for a missing one. No upper bound such as 300
  holds of the height (see the counterexample).
\<close>

theorem derived_numbers_nonnegative:
  "(parse_height_to_cm height = Inr (Some v) \<longrightarrow> 0 \<le> v)
   \<and> (compute_age birth_date ref_date = Some n \<longrightarrow> 0 \<le> n)"
  using parse_height_ok [of height v] compute_age_nonneg [of birth_date ref_date n] by blast

theorem derived_numbers_nonnegative_witness:
  "parse_height_to_cm (Str ''180 cm'') = Inr (Some 180) \<and> (0 :: rat) \<le> 180
   \<and> compute_age (Some \<lparr>year = 1961, month = 4, day = 13\<rparr>) TODAY = Some 64 \<and> (0 :: int) \<le> 64"
proof -
  have h: "parse_height_to_cm (Str ''180 cm'') = Inr (Some 180)" by code_simp
  have a: "compute_age (Some \<lparr>year = 1961, month = 4, day = 13\<rparr>) TODAY = Some 64" by code_simp
  from derived_numbers_nonnegative [of "Str ''180 cm''" 180
      "Some \<lparr>year = 1961, month = 4, day = 13\<rparr>" TODAY 64] h a
  have "(0 :: rat) \<le> 180" "(0 :: int) \<le> 64" by blast+
  with h a show ?thesis by (intro conjI)
qed

section \<open>Properties of the table stages\<close>

lemma bind_err_Inr: "bind_err m f = Inr y \<Longrightarrow> \<exists>x. m = Inr x \<and> f x = Inr y"
  by (cases m) (simp_all add: bind_err_def)

lemma bind_err_simps [simp]: "bind_err (Inr x) f = f x" "bind_err (Inl e) f = Inl e"
  by (simp_all add: bind_err_def)

lemma has_col_values: "has_col name df \<longleftrightarrow> col_values name df \<noteq> []"
  by (auto simp: has_col_def columns_def col_values_def filter_empty_conv)

lemma col_values_set_col:
  "col_values name (set_col t v df) =
     (if name = t then (if has_col t df then map (\<lambda>_. v) (col_values t df) else [v])
      else col_values name df)"
proof -
  have 1: "map snd (filter (\<lambda>c. fst c = name) (map (\<lambda>c. if fst c = t then (t, v) else c) cs)) =
      (if name = t then map (\<lambda>_. v) (filter (\<lambda>c. fst c = t) cs)
       else map snd (filter (\<lambda>c. fst c = name) cs))" for cs
    by (induction cs) auto
  have 2: "\<not> has_col t df \<Longrightarrow> filter (\<lambda>c. fst c = t) (cols df) = []"
    by (auto simp: has_col_def columns_def filter_empty_conv)
  show ?thesis
  proof (cases "has_col t df")
    case True
    then show ?thesis by (simp add: col_values_def set_col_def 1 comp_def)
  next
    case False
    then show ?thesis by (simp add: col_values_def set_col_def 2)
  qed
qed

lemma columns_set_col:
  "columns (set_col t v df) = (if has_col t df then columns df else columns df @ [t])"
proof -
  have "map fst (map (\<lambda>c. if fst c = t then (t, v) else c) cs) = map fst cs" for cs
    by (induction cs) auto
  then show ?thesis by (simp add: columns_def set_col_def)
qed

lemma has_col_set_col: "has_col name (set_col t v df) \<longleftrightarrow> name = t \<or> has_col name df"
  by (auto simp: has_col_def columns_set_col)

lemma n_rows_set_col: "n_rows (set_col t v df) = n_rows df"
  by (simp add: set_col_def)

lemma wf_set_col: "wf_frame df \<Longrightarrow> length v = n_rows df \<Longrightarrow> wf_frame (set_col t v df)"
  by (auto simp: wf_frame_def set_col_def list_all_iff)

lemma distinct_set_col: "distinct (columns df) \<Longrightarrow> distinct (columns (set_col t v df))"
  by (auto simp: columns_set_col has_col_def)

lemma touches_refl: "touches ts df df"
  by (simp add: touches_def)

lemma touches_set_col:
  "(wf_frame df \<Longrightarrow> length v = n_rows df) \<Longrightarrow> touches [t] df (set_col t v df)"
  by (auto simp: touches_def n_rows_set_col col_values_set_col has_col_set_col wf_set_col distinct_set_col)

lemma touches_trans:
  "touches ts df a \<Longrightarrow> touches ts' a out \<Longrightarrow> touches (ts @ ts') df out"
  unfolding touches_def by (intro conjI allI impI) (simp, simp, blast, fastforce, blast, blast)

lemma touches_step:
  assumes "touches ts df mid" "wf_frame df \<Longrightarrow> length v = n_rows df"
  shows "touches (ts @ [t]) df (set_col t v mid)"
  unfolding touches_def
proof (intro conjI allI impI)
  show "n_rows (set_col t v mid) = n_rows df"
    using assms(1) by (simp add: n_rows_set_col touches_def)
  show "col_values name (set_col t v mid) = col_values name df" if "name \<notin> set (ts @ [t])" for name
    using assms(1) that by (simp add: col_values_set_col touches_def)
  show "has_col name (set_col t v mid)" if "has_col name df" for name
    using assms(1) that by (simp add: has_col_set_col touches_def)
  show "has_col name df \<or> name \<in> set (ts @ [t])" if "has_col name (set_col t v mid)" for name
    using assms(1) that by (auto simp: has_col_set_col touches_def)
  show "wf_frame (set_col t v mid)" if "wf_frame df"
  proof (rule wf_set_col)
    show "wf_frame mid" using assms(1) that by (simp add: touches_def)
    show "length v = n_rows mid" using assms that by (simp add: touches_def)
  qed
  show "distinct (columns (set_col t v mid))" if "distinct (columns df)"
    using assms(1) that by (simp add: distinct_set_col touches_def)
qed

lemma touches_mono: "touches ts df out \<Longrightarrow> set ts \<subseteq> set ts' \<Longrightarrow> touches ts' df out"
  unfolding touches_def by blast

lemma apply_col_Inr:
  "apply_col df name f = Inr vals \<Longrightarrow> \<exists>c. col_values name df = [c] \<and> map_err f c = Inr vals"
  by (auto simp: apply_col_def split: list.splits)

lemma wf_col_length: "wf_frame df \<Longrightarrow> c \<in> set (col_values name df) \<Longrightarrow> length c = n_rows df"
  by (auto simp: wf_frame_def col_values_def list_all_iff)

lemma apply_col_length:
  assumes "apply_col df name f = Inr vals" "wf_frame df"
  shows "length vals = n_rows df"
proof -
  from apply_col_Inr [OF assms(1)] obtain c where c: "col_values name df = [c]" "map_err f c = Inr vals"
    by blast
  from c(1) have "c \<in> set (col_values name df)" by simp
  from wf_col_length [OF assms(2) this] map_err_Inr [OF c(2)] show ?thesis by simp
qed

text \<open>the statement \<open>df[target] = df[source].apply(f)\<close>\<close>

lemma assign_touches:
  assumes "bind_err (apply_col df src f) (\<lambda>vals. Inr (set_col t (g vals) df)) = Inr out"
    and "\<And>vals. length (g vals) = length vals"
  shows "touches [t] df out"
proof -
  from bind_err_Inr [OF assms(1)] obtain vals where v: "apply_col df src f = Inr vals"
    and o: "out = set_col t (g vals) df" by auto
  show ?thesis unfolding o
    by (rule touches_set_col) (simp add: assms(2) apply_col_length [OF v])
qed

lemma process_aliases_touches: "process_aliases df = Inr out \<Longrightarrow> touches [''alias_count''] df out"
  unfolding process_aliases_def
  by (auto split: if_splits intro: touches_refl assign_touches [where g = "\<lambda>x. x"])

lemma process_occupations_touches:
  "process_occupations df = Inr out \<Longrightarrow> touches [''occupation_category''] df out"
  unfolding process_occupations_def
  by (auto split: if_splits intro: touches_refl assign_touches [where g = "\<lambda>x. x"])

lemma process_hair_color_touches: "process_hair_color df = Inr out \<Longrightarrow> touches [''hair_color''] df out"
  unfolding process_hair_color_def
  by (auto split: if_splits intro: touches_refl assign_touches [where g = "\<lambda>x. x"])

lemma process_height_touches: "process_height df = Inr out \<Longrightarrow> touches [''height_cm''] df out"
  unfolding process_height_def
  by (auto split: if_splits intro: touches_refl assign_touches [where g = "\<lambda>x. x"])

lemma process_weight_touches: "process_weight df = Inr out \<Longrightarrow> touches [''weight_kg''] df out"
  unfolding process_weight_def
  by (auto split: if_splits intro: touches_refl assign_touches [where g = "\<lambda>x. x"])

lemma process_marks_touches: "process_marks df = Inr out \<Longrightarrow> touches [''has_mark''] df out"
  unfolding process_marks_def
  by (auto split: if_splits intro: touches_refl assign_touches [where g = "\<lambda>x. x"])

lemma process_caution_touches: "process_caution df = Inr out \<Longrightarrow> touches [''has_caution''] df out"
  unfolding process_caution_def
  by (auto split: if_splits intro: touches_refl assign_touches [where g = "\<lambda>x. x"])

lemma process_physical_measurements_touches:
  assumes "process_physical_measurements df = Inr out"
  shows "touches [''height_cm'', ''weight_kg''] df out"
proof -
  from bind_err_Inr [OF assms [unfolded process_physical_measurements_def]] obtain a where
    "process_height df = Inr a" "process_weight a = Inr out" by blast
  from touches_trans [OF process_height_touches [OF this(1)] process_weight_touches [OF this(2)]]
  show ?thesis by simp
qed

lemma process_marks_and_caution_touches:
  assumes "process_marks_and_caution df = Inr out"
  shows "touches [''has_mark'', ''has_caution''] df out"
proof -
  from bind_err_Inr [OF assms [unfolded process_marks_and_caution_def]] obtain a where
    "process_marks df = Inr a" "process_caution a = Inr out" by blast
  from touches_trans [OF process_marks_touches [OF this(1)] process_caution_touches [OF this(2)]]
  show ?thesis by simp
qed

lemma process_birth_places_touches:
  assumes "process_birth_places df = Inr out"
  shows "touches [''birth_country'', ''birth_country_code''] df out"
proof (cases "has_col ''Place of Birth'' df")
  case False
  with assms have "out = df" by (simp add: process_birth_places_def)
  then show ?thesis by (simp add: touches_refl)
next
  case True
  with assms obtain data where d: "apply_col df ''Place of Birth'' (\<lambda>c. Inr (extract_country_from_birth_place c)) = Inr data"
    and o: "out = set_col ''birth_country_code'' (map (\<lambda>x. opt_cell Str (snd x)) data)
                (set_col ''birth_country'' (map (\<lambda>x. opt_cell Str (fst x)) data) df)"
    by (auto simp: process_birth_places_def dest!: bind_err_Inr)
  note len = apply_col_length [OF d]
  have "touches ([] @ [''birth_country'']) df (set_col ''birth_country'' (map (\<lambda>x. opt_cell Str (fst x)) data) df)"
    by (rule touches_step [OF touches_refl]) (simp add: len)
  then have "touches (([] @ [''birth_country'']) @ [''birth_country_code'']) df out"
    unfolding o by (rule touches_step) (simp add: len)
  then show ?thesis by simp
qed

lemma process_languages_touches:
  assumes "process_languages df = Inr out"
  shows "touches [''Language_1'', ''Language_2'', ''Language_3''] df out"
proof (cases "has_col ''Languages'' df")
  case False
  with assms have "out = df" by (simp add: process_languages_def)
  then show ?thesis by (simp add: touches_refl)
next
  case True
  with assms obtain data where d: "apply_col df ''Languages'' (\<lambda>c. Inr (split_languages c)) = Inr data"
    and o: "out = set_col ''Language_3'' (map (\<lambda>x. opt_cell Str (snd (snd x))) data)
                (set_col ''Language_2'' (map (\<lambda>x. opt_cell Str (fst (snd x))) data)
                  (set_col ''Language_1'' (map (\<lambda>x. opt_cell Str (fst x)) data) df))"
    by (auto simp: process_languages_def dest!: bind_err_Inr)
  note len = apply_col_length [OF d]
  have "touches ([] @ [''Language_1'']) df (set_col ''Language_1'' (map (\<lambda>x. opt_cell Str (fst x)) data) df)"
    by (rule touches_step [OF touches_refl]) (simp add: len)
  then have "touches (([] @ [''Language_1'']) @ [''Language_2'']) df
      (set_col ''Language_2'' (map (\<lambda>x. opt_cell Str (fst (snd x))) data)
                  (set_col ''Language_1'' (map (\<lambda>x. opt_cell Str (fst x)) data) df))"
    by (rule touches_step) (simp add: len)
  then have "touches ((([] @ [''Language_1'']) @ [''Language_2'']) @ [''Language_3'']) df out"
    unfolding o by (rule touches_step) (simp add: len)
  then show ?thesis by simp
qed

lemma dob_col_of_label: "dob_col_of df = Some c \<Longrightarrow> c \<in> set dob_labels \<and> has_col c df"
proof -
  assume "dob_col_of df = Some c"
  then obtain cs where "filter (\<lambda>c. has_col c df) dob_labels = c # cs"
    by (auto simp: dob_col_of_def split: list.splits)
  then have "c \<in> set (filter (\<lambda>c. has_col c df) dob_labels)" by simp
  then show ?thesis by simp
qed

lemma process_dates_and_ages_touches:
  assumes "process_dates_and_ages df = Inr out"
  shows "touches (dob_labels @ [''age_years'', ''zodiac_sign'']) df out"
proof (cases "dob_col_of df")
  case None
  then have "filter (\<lambda>c. has_col c df) dob_labels = []"
    by (simp add: dob_col_of_def split: list.splits)
  with assms have "out = df" by (simp add: process_dates_and_ages_def)
  then show ?thesis by (simp add: touches_refl)
next
  case (Some dob_col)
  then obtain cs where f: "filter (\<lambda>c. has_col c df) dob_labels = dob_col # cs"
    by (auto simp: dob_col_of_def split: list.splits)
  define df1 where "df1 dates = set_col dob_col dates df" for dates
  define df2 where "df2 dates ages = set_col ''age_years'' ages (df1 dates)" for dates ages
  from assms obtain dates ages signs where
    d: "apply_col df dob_col (\<lambda>c. bind_err (parse_date c) (\<lambda>d. Inr (opt_cell DateV d))) = Inr dates"
    and a: "apply_col (df1 dates) dob_col (\<lambda>c. Inr (opt_cell IntV (compute_age (cell_date c) TODAY))) = Inr ages"
    and z: "apply_col (df2 dates ages) dob_col (\<lambda>c. Inr (opt_cell Str (zodiac_sign (cell_date c)))) = Inr signs"
    and o: "out = set_col ''zodiac_sign'' signs (df2 dates ages)"
    unfolding process_dates_and_ages_def f df1_def df2_def
    by (auto simp: Let_def dest!: bind_err_Inr)
  have t1: "touches ([] @ [dob_col]) df (df1 dates)"
    unfolding df1_def by (rule touches_step [OF touches_refl]) (simp add: apply_col_length [OF d])
  have l2: "length ages = n_rows df" if "wf_frame df"
  proof -
    from t1 that have "wf_frame (df1 dates)" "n_rows (df1 dates) = n_rows df" by (simp_all add: touches_def)
    with apply_col_length [OF a] show ?thesis by simp
  qed
  have t2: "touches (([] @ [dob_col]) @ [''age_years'']) df (df2 dates ages)"
    unfolding df2_def using t1 by (rule touches_step) (rule l2)
  have l3: "length signs = n_rows df" if "wf_frame df"
  proof -
    from t2 that have "wf_frame (df2 dates ages)" "n_rows (df2 dates ages) = n_rows df"
      by (simp_all add: touches_def)
    with apply_col_length [OF z] show ?thesis by simp
  qed
  have "touches ((([] @ [dob_col]) @ [''age_years'']) @ [''zodiac_sign'']) df out"
    unfolding o using t2 by (rule touches_step) (rule l3)
  moreover have "dob_col \<in> set dob_labels" using dob_col_of_label [OF Some] by simp
  ultimately show ?thesis by (auto elim: touches_mono)
qed

lemma finalise_Inr:
  "rename_and_reorganize_columns df = Inr out \<Longrightarrow>
     out = reordered df
     \<and> \<not> list_ex (\<lambda>col. has_col col out \<and> 1 < length (col_values col out)) bool_cols"
  by (auto simp: rename_and_reorganize_columns_def Let_def split: if_splits)

lemma finalise_ok:
  "\<not> list_ex (\<lambda>col. has_col col (reordered df) \<and> 1 < length (col_values col (reordered df))) bool_cols
     \<Longrightarrow> rename_and_reorganize_columns df = Inr (reordered df)"
  by (simp add: rename_and_reorganize_columns_def Let_def)

lemma clean_dataframe_Inr:
  assumes "clean_dataframe df = Inr out"
  shows "\<exists>d1 d2 d3 d4 d5 d6 d7 d8.
     process_aliases df = Inr d1 \<and> process_dates_and_ages d1 = Inr d2
     \<and> process_occupations d2 = Inr d3 \<and> process_birth_places d3 = Inr d4
     \<and> process_languages d4 = Inr d5 \<and> process_hair_color d5 = Inr d6
     \<and> process_physical_measurements d6 = Inr d7 \<and> process_marks_and_caution d7 = Inr d8
     \<and> out = reordered (remove_unused_columns d8)
     \<and> rename_and_reorganize_columns (remove_unused_columns d8) = Inr out"
proof -
  from assms [unfolded clean_dataframe_def] obtain d1 where 1: "process_aliases df = Inr d1"
    and r1: "bind_err (process_dates_and_ages d1) (\<lambda>out.
     bind_err (process_occupations out) (\<lambda>out.
     bind_err (process_birth_places out) (\<lambda>out.
     bind_err (process_languages out) (\<lambda>out.
     bind_err (process_hair_color out) (\<lambda>out.
     bind_err (process_physical_measurements out) (\<lambda>out.
     bind_err (process_marks_and_caution out) (\<lambda>out.
       rename_and_reorganize_columns (remove_unused_columns out)))))))) = Inr out"
    by (blast dest: bind_err_Inr)
  from bind_err_Inr [OF r1] obtain d2 where 2: "process_dates_and_ages d1 = Inr d2"
    and r2: "bind_err (process_occupations d2) (\<lambda>out.
     bind_err (process_birth_places out) (\<lambda>out.
     bind_err (process_languages out) (\<lambda>out.
     bind_err (process_hair_color out) (\<lambda>out.
     bind_err (process_physical_measurements out) (\<lambda>out.
     bind_err (process_marks_and_caution out) (\<lambda>out.
       rename_and_reorganize_columns (remove_unused_columns out))))))) = Inr out"
    by blast
  from bind_err_Inr [OF r2] obtain d3 where 3: "process_occupations d2 = Inr d3"
    and r3: "bind_err (process_birth_places d3) (\<lambda>out.
     bind_err (process_languages out) (\<lambda>out.
     bind_err (process_hair_color out) (\<lambda>out.
     bind_err (process_physical_measurements out) (\<lambda>out.
     bind_err (process_marks_and_caution out) (\<lambda>out.
       rename_and_reorganize_columns (remove_unused_columns out)))))) = Inr out"
    by blast
  from bind_err_Inr [OF r3] obtain d4 where 4: "process_birth_places d3 = Inr d4"
    and r4: "bind_err (process_languages d4) (\<lambda>out.
     bind_err (process_hair_color out) (\<lambda>out.
     bind_err (process_physical_measurements out) (\<lambda>out.
     bind_err (process_marks_and_caution out) (\<lambda>out.
       rename_and_reorganize_columns (remove_unused_columns out))))) = Inr out"
    by blast
  from bind_err_Inr [OF r4] obtain d5 where 5: "process_languages d4 = Inr d5"
    and r5: "bind_err (process_hair_color d5) (\<lambda>out.
     bind_err (process_physical_measurements out) (\<lambda>out.
     bind_err (process_marks_and_caution out) (\<lambda>out.
       rename_and_reorganize_columns (remove_unused_columns out)))) = Inr out"
    by blast
  from bind_err_Inr [OF r5] obtain d6 where 6: "process_hair_color d5 = Inr d6"
    and r6: "bind_err (process_physical_measurements d6) (\<lambda>out.
     bind_err (process_marks_and_caution out) (\<lambda>out.
       rename_and_reorganize_columns (remove_unused_columns out))) = Inr out"
    by blast
  from bind_err_Inr [OF r6] obtain d7 where 7: "process_physical_measurements d6 = Inr d7"
    and r7: "bind_err (process_marks_and_caution d7) (\<lambda>out.
       rename_and_reorganize_columns (remove_unused_columns out)) = Inr out"
    by blast
  from bind_err_Inr [OF r7] obtain d8 where 8: "process_marks_and_caution d7 = Inr d8"
    and r8: "rename_and_reorganize_columns (remove_unused_columns d8) = Inr out"
    by blast
  from finalise_Inr [OF r8] have "out = reordered (remove_unused_columns d8)" by simp
  with 1 2 3 4 5 6 7 8 r8 show ?thesis by blast
qed

subsection \<open>finalisation\<close>

lemma drop_fold:
  "fold (\<lambda>col d. if has_col col d then drop_col col d else d) ls df =
     df\<lparr>cols := filter (\<lambda>c. fst c \<notin> set ls) (cols df)\<rparr>"
proof (induction ls arbitrary: df)
  case Nil
  then show ?case by simp
next
  case (Cons l ls)
  have "(if has_col l df then drop_col l df else df) = df\<lparr>cols := filter (\<lambda>c. fst c \<noteq> l) (cols df)\<rparr>"
  proof (cases "has_col l df")
    case True
    then show ?thesis by (simp add: drop_col_def)
  next
    case False
    then have "filter (\<lambda>c. fst c \<noteq> l) (cols df) = cols df"
      by (auto simp: has_col_def columns_def filter_id_conv)
    with False show ?thesis by simp
  qed
  then show ?case by (simp add: Cons.IH conj_commute)
qed

lemma remove_unused_columns_eq:
  "remove_unused_columns df = df\<lparr>cols := filter (\<lambda>c. fst c \<notin> set cols_to_drop) (cols df)\<rparr>"
  by (simp add: remove_unused_columns_def drop_fold)

lemma col_values_remove:
  "col_values name (remove_unused_columns df) =
     (if name \<in> set cols_to_drop then [] else col_values name df)"
proof -
  have h: "filter (\<lambda>c. fst c \<notin> S \<and> fst c = name) cs =
    (if name \<in> S then [] else filter (\<lambda>c. fst c = name) cs)" for S cs
    by (induction cs) auto
  show ?thesis by (simp add: col_values_def remove_unused_columns_eq h)
qed

lemma n_rows_remove: "n_rows (remove_unused_columns df) = n_rows df"
  by (simp add: remove_unused_columns_eq)

lemma wf_remove: "wf_frame df \<Longrightarrow> wf_frame (remove_unused_columns df)"
  by (simp add: remove_unused_columns_eq wf_frame_def list_all_iff)

lemma columns_remove:
  "columns (remove_unused_columns df) = filter (\<lambda>l. l \<notin> set cols_to_drop) (columns df)"
  by (simp add: remove_unused_columns_eq columns_def filter_map comp_def)

lemma col_values_rename:
  "col_values name (rename_columns df) = map snd (filter (\<lambda>c. rename_label (fst c) = name) (cols df))"
  by (simp add: col_values_def rename_columns_def filter_map comp_def)

lemma n_rows_rename: "n_rows (rename_columns df) = n_rows df"
  by (simp add: rename_columns_def)

lemma wf_rename: "wf_frame df \<Longrightarrow> wf_frame (rename_columns df)"
  by (simp add: rename_columns_def wf_frame_def list_all_iff)

lemma columns_rename: "columns (rename_columns df) = map rename_label (columns df)"
  by (simp add: rename_columns_def columns_def comp_def)

lemma fold_new_set:
  "set (fold (\<lambda>col order. if col \<notin> set order then order @ [col] else order) xs acc) = set acc \<union> set xs"
  by (induction xs arbitrary: acc) auto

lemma fold_new_distinct:
  "distinct acc \<Longrightarrow> distinct (fold (\<lambda>col order. if col \<notin> set order then order @ [col] else order) xs acc)"
  by (induction xs arbitrary: acc) auto

lemma distinct_column_order: "distinct column_order"
  by (simp add: column_order_def)

lemma final_order_distinct: "distinct (final_order df)"
  unfolding final_order_def by (rule fold_new_distinct) (simp add: distinct_column_order)

lemma final_order_set: "set (final_order df) = set (columns df)"
  by (auto simp: final_order_def fold_new_set has_col_def)

lemma filter_concat_select:
  "distinct ls \<Longrightarrow>
     filter (\<lambda>c. fst c = name) (concat (map (\<lambda>l. filter (\<lambda>c. fst c = l) cs) ls)) =
     (if name \<in> set ls then filter (\<lambda>c. fst c = name) cs else [])"
proof (induction ls)
  case Nil
  then show ?case by simp
next
  case (Cons l ls)
  have 1: "filter (\<lambda>c. fst c = l \<and> fst c = name) cs =
    (if name = l then filter (\<lambda>c. fst c = name) cs else [])"
    by (induction cs) auto
  from Cons show ?case by (auto simp: 1)
qed

lemma col_values_select:
  "distinct ls \<Longrightarrow> col_values name (select_cols ls df) = (if name \<in> set ls then col_values name df else [])"
  by (simp add: col_values_def select_cols_def filter_concat_select)

lemma col_values_reorder: "col_values name (select_cols (final_order df) df) = col_values name df"
proof -
  have "name \<notin> set (columns df) \<Longrightarrow> col_values name df = []"
    using has_col_values [of name df] by (simp add: has_col_def)
  then show ?thesis by (simp add: col_values_select final_order_distinct final_order_set)
qed

lemma wf_select: "wf_frame df \<Longrightarrow> wf_frame (select_cols ls df)"
  by (auto simp: wf_frame_def select_cols_def list_all_iff)

lemma col_values_finalise:
  "col_values name (reordered df) =
     map snd (filter (\<lambda>c. rename_label (fst c) = name) (cols df))"
  by (simp add: reordered_def Let_def col_values_reorder col_values_rename)

lemma n_rows_finalise: "n_rows (reordered df) = n_rows df"
  by (simp add: reordered_def Let_def select_cols_def rename_columns_def)

lemma wf_finalise: "wf_frame df \<Longrightarrow> wf_frame (reordered df)"
  by (simp add: reordered_def Let_def wf_select wf_rename)

lemma rename_label_range: "rename_label x = x \<or> rename_label x \<in> set (map snd rename_map)"
proof (cases "map_of rename_map x")
  case None
  then show ?thesis by (simp add: rename_label_def)
next
  case (Some y)
  then have "(x, y) \<in> set rename_map" by (rule map_of_SomeD)
  then have "y \<in> set (map snd rename_map)" by force
  with Some show ?thesis by (simp add: rename_label_def)
qed

lemma rename_label_key: "x \<in> set (map fst rename_map) \<Longrightarrow> rename_label x \<in> set (map snd rename_map)"
proof -
  assume "x \<in> set (map fst rename_map)"
  then obtain y where "map_of rename_map x = Some y"
    by (metis map_of_eq_None_iff not_None_eq set_map)
  then have "(x, y) \<in> set rename_map" "rename_label x = y"
    by (simp_all add: map_of_SomeD rename_label_def)
  then show ?thesis by force
qed

lemma rename_label_stable: "stable_label name \<Longrightarrow> rename_label x = name \<longleftrightarrow> x = name"
proof
  assume s: "stable_label name" and e: "rename_label x = name"
  from rename_label_range [of x] e s show "x = name" by (auto simp: stable_label_def)
next
  assume s: "stable_label name" and e: "x = name"
  then have "map_of rename_map x = None" by (simp add: stable_label_def map_of_eq_None_iff)
  with e show "rename_label x = name" by (simp add: rename_label_def)
qed

lemma col_values_final:
  assumes "stable_label name" "name \<notin> set cols_to_drop"
  shows "col_values name (reordered (remove_unused_columns df)) = col_values name df"
proof -
  have "col_values name (reordered (remove_unused_columns df)) =
      col_values name (remove_unused_columns df)"
    unfolding col_values_finalise by (simp add: rename_label_stable [OF assms(1)] col_values_def)
  with assms(2) show ?thesis by (simp add: col_values_remove)
qed

lemma clean_dataframe_touches:
  assumes "clean_dataframe df = Inr out"
  shows "\<exists>d8. touches derived_labels df d8 \<and> out = reordered (remove_unused_columns d8)"
proof -
  from clean_dataframe_Inr [OF assms] obtain d1 d2 d3 d4 d5 d6 d7 d8 where s:
    "process_aliases df = Inr d1" "process_dates_and_ages d1 = Inr d2"
    "process_occupations d2 = Inr d3" "process_birth_places d3 = Inr d4"
    "process_languages d4 = Inr d5" "process_hair_color d5 = Inr d6"
    "process_physical_measurements d6 = Inr d7" "process_marks_and_caution d7 = Inr d8"
    "out = reordered (remove_unused_columns d8)" by blast
  note t = touches_trans [OF process_aliases_touches [OF s(1)]
        touches_trans [OF process_dates_and_ages_touches [OF s(2)]
        touches_trans [OF process_occupations_touches [OF s(3)]
        touches_trans [OF process_birth_places_touches [OF s(4)]
        touches_trans [OF process_languages_touches [OF s(5)]
        touches_trans [OF process_hair_color_touches [OF s(6)]
        touches_trans [OF process_physical_measurements_touches [OF s(7)]
          process_marks_and_caution_touches [OF s(8)]]]]]]]]
  then have "touches derived_labels df d8" by (simp only: derived_labels_def)
  with s(9) show ?thesis by blast
qed

lemma url_not_derived: "''url'' \<notin> set derived_labels"
  by (simp add: derived_labels_def dob_labels_def)

lemma url_kept: "stable_label ''url''" "''url'' \<notin> set cols_to_drop"
  by (simp_all add: stable_label_def rename_map_def cols_to_drop_def)

subsection \<open>Columns derived from a source column\<close>

lemma derived_from_iff:
  "derived_from src tgt f df out \<longleftrightarrow>
     (\<exists>c. col_values src df = [c] \<and> col_values tgt out \<noteq> []
          \<and> list_all (\<lambda>col. col = map f c) (col_values tgt out))"
  by (auto simp: derived_from_def split: list.splits)

lemma apply_col_total:
  "apply_col df name (\<lambda>c. Inr (f c)) = Inr vals \<Longrightarrow> \<exists>c. col_values name df = [c] \<and> vals = map f c"
  by (auto dest!: apply_col_Inr simp: map_err_total)

lemma assign_derived:
  assumes "bind_err (apply_col d src (\<lambda>c. Inr (f c))) (\<lambda>vals. Inr (set_col tgt vals d)) = Inr d'"
  shows "derived_from src tgt f d d'"
proof -
  from bind_err_Inr [OF assms] obtain vals where v: "apply_col d src (\<lambda>c. Inr (f c)) = Inr vals"
    and o: "d' = set_col tgt vals d" by auto
  from apply_col_total [OF v] obtain c where c: "col_values src d = [c]" "vals = map f c" by blast
  have "col_values tgt d' \<noteq> []" "list_all (\<lambda>col. col = vals) (col_values tgt d')"
    by (simp_all add: o col_values_set_col has_col_values list_all_iff)
  with c show ?thesis by (auto simp: derived_from_iff)
qed

lemma derived_from_transport:
  assumes "derived_from src tgt f d d'"
    and "col_values src d = col_values src df" "col_values tgt out = col_values tgt d'"
  shows "derived_from src tgt f df out"
  using assms by (simp add: derived_from_iff)

lemma process_marks_and_caution_Inr:
  "process_marks_and_caution d = Inr d' \<Longrightarrow> \<exists>m. process_marks d = Inr m \<and> process_caution m = Inr d'"
  unfolding process_marks_and_caution_def by (rule bind_err_Inr)

lemma touches_col:
  "touches ts df out \<Longrightarrow> name \<notin> set ts \<Longrightarrow> col_values name out = col_values name df"
  by (simp add: touches_def)

lemma touches_has: "touches ts df out \<Longrightarrow> has_col name df \<Longrightarrow> has_col name out"
  by (simp add: touches_def)

lemma derived_kept:
  "stable_label ''alias_count''" "''alias_count'' \<notin> set cols_to_drop"
  "stable_label ''occupation_category''" "''occupation_category'' \<notin> set cols_to_drop"
  "stable_label ''has_mark''" "''has_mark'' \<notin> set cols_to_drop"
  "stable_label ''has_caution''" "''has_caution'' \<notin> set cols_to_drop"
  by (simp_all add: stable_label_def rename_map_def cols_to_drop_def)

lemma always_present_derived:
  assumes "clean_dataframe df = Inr out"
  shows "has_col ''alias'' df \<Longrightarrow>
           derived_from ''alias'' ''alias_count'' (\<lambda>c. IntV (int (count_aliases c))) df out"
    and "has_col ''Occupation'' df \<Longrightarrow>
           derived_from ''Occupation'' ''occupation_category'' (\<lambda>c. Str (categorize_occupation c)) df out"
    and "has_col ''Scars and Marks'' df \<Longrightarrow>
           derived_from ''Scars and Marks'' ''has_mark'' (\<lambda>c. BoolV (detect_scars_marks c)) df out"
    and "has_col ''caution'' df \<Longrightarrow>
           derived_from ''caution'' ''has_caution'' (\<lambda>c. BoolV (detect_dollar_amounts c)) df out"
proof -
  from clean_dataframe_Inr [OF assms] obtain d1 d2 d3 d4 d5 d6 d7 d8 where s:
    "process_aliases df = Inr d1" "process_dates_and_ages d1 = Inr d2"
    "process_occupations d2 = Inr d3" "process_birth_places d3 = Inr d4"
    "process_languages d4 = Inr d5" "process_hair_color d5 = Inr d6"
    "process_physical_measurements d6 = Inr d7" "process_marks_and_caution d7 = Inr d8"
    "out = reordered (remove_unused_columns d8)" by blast
  from process_marks_and_caution_Inr [OF s(8)] obtain m where m:
    "process_marks d7 = Inr m" "process_caution m = Inr d8" by blast
  note t1 = process_aliases_touches [OF s(1)]
  note t2 = process_dates_and_ages_touches [OF s(2)]
  note t3 = process_occupations_touches [OF s(3)]
  note t4 = process_birth_places_touches [OF s(4)]
  note t5 = process_languages_touches [OF s(5)]
  note t6 = process_hair_color_touches [OF s(6)]
  note t7 = process_physical_measurements_touches [OF s(7)]
  note t8a = process_marks_touches [OF m(1)]
  note t8b = process_caution_touches [OF m(2)]
  note t47 = touches_trans [OF t4 touches_trans [OF t5 touches_trans [OF t6 t7]]]
  note t12 = touches_trans [OF t1 t2]
  note t17 = touches_trans [OF t12 touches_trans [OF t3 t47]]
  note t28 = touches_trans [OF t2 touches_trans [OF t3 touches_trans [OF t47 touches_trans [OF t8a t8b]]]]
  note t48 = touches_trans [OF t47 touches_trans [OF t8a t8b]]
  note t1m = touches_trans [OF t17 t8a]
  show "derived_from ''alias'' ''alias_count'' (\<lambda>c. IntV (int (count_aliases c))) df out"
    if "has_col ''alias'' df"
  proof (rule derived_from_transport)
    show "derived_from ''alias'' ''alias_count'' (\<lambda>c. IntV (int (count_aliases c))) df d1"
      using s(1) that by (auto simp: process_aliases_def intro: assign_derived)
    show "col_values ''alias'' df = col_values ''alias'' df" ..
    have "col_values ''alias_count'' out = col_values ''alias_count'' d8"
      unfolding s(9) by (rule col_values_final) (rule derived_kept)+
    also have "\<dots> = col_values ''alias_count'' d1"
      by (rule touches_col [OF t28]) (simp add: dob_labels_def)
    finally show "col_values ''alias_count'' out = col_values ''alias_count'' d1" .
  qed
  show "derived_from ''Occupation'' ''occupation_category'' (\<lambda>c. Str (categorize_occupation c)) df out"
    if "has_col ''Occupation'' df"
  proof (rule derived_from_transport)
    from that have "has_col ''Occupation'' d2" by (rule touches_has [OF t12])
    then show "derived_from ''Occupation'' ''occupation_category'' (\<lambda>c. Str (categorize_occupation c)) d2 d3"
      using s(3) by (auto simp: process_occupations_def intro: assign_derived)
    show "col_values ''Occupation'' d2 = col_values ''Occupation'' df"
      by (rule touches_col [OF t12]) (simp add: dob_labels_def)
    have "col_values ''occupation_category'' out = col_values ''occupation_category'' d8"
      unfolding s(9) by (rule col_values_final) (rule derived_kept)+
    also have "\<dots> = col_values ''occupation_category'' d3"
      by (rule touches_col [OF t48]) simp
    finally show "col_values ''occupation_category'' out = col_values ''occupation_category'' d3" .
  qed
  show "derived_from ''Scars and Marks'' ''has_mark'' (\<lambda>c. BoolV (detect_scars_marks c)) df out"
    if "has_col ''Scars and Marks'' df"
  proof (rule derived_from_transport)
    from that have "has_col ''Scars and Marks'' d7" by (rule touches_has [OF t17])
    then show "derived_from ''Scars and Marks'' ''has_mark'' (\<lambda>c. BoolV (detect_scars_marks c)) d7 m"
      using m(1) by (auto simp: process_marks_def intro: assign_derived)
    show "col_values ''Scars and Marks'' d7 = col_values ''Scars and Marks'' df"
      by (rule touches_col [OF t17]) (simp add: dob_labels_def)
    have "col_values ''has_mark'' out = col_values ''has_mark'' d8"
      unfolding s(9) by (rule col_values_final) (rule derived_kept)+
    also have "\<dots> = col_values ''has_mark'' m"
      by (rule touches_col [OF t8b]) simp
    finally show "col_values ''has_mark'' out = col_values ''has_mark'' m" .
  qed
  show "derived_from ''caution'' ''has_caution'' (\<lambda>c. BoolV (detect_dollar_amounts c)) df out"
    if "has_col ''caution'' df"
  proof (rule derived_from_transport)
    from that have "has_col ''caution'' m" by (rule touches_has [OF t1m])
    then show "derived_from ''caution'' ''has_caution'' (\<lambda>c. BoolV (detect_dollar_amounts c)) m d8"
      using m(2) by (auto simp: process_caution_def intro: assign_derived)
    show "col_values ''caution'' m = col_values ''caution'' df"
      by (rule touches_col [OF t1m]) (simp add: dob_labels_def)
    show "col_values ''has_caution'' out = col_values ''has_caution'' d8"
      unfolding s(9) by (rule col_values_final) (rule derived_kept)+
  qed
qed

lemma occupation_loop_range:
  "occupation_loop table t \<in> set (map fst table) \<union> {''Other''}"
  by (induction table t rule: occupation_loop.induct) auto

lemma categorize_occupation_range:
  "categorize_occupation c \<in> set (map fst OCCUPATION_KEYWORDS) \<union> {''Other''}"
proof (cases "is_blank c")
  case True
  then show ?thesis by (simp add: categorize_occupation_def OCCUPATION_KEYWORDS_def)
next
  case False
  then show ?thesis using occupation_loop_range by (simp add: categorize_occupation_def)
qed

lemma blank_defaults:
  "is_blank c \<Longrightarrow> count_aliases c = 0 \<and> \<not> detect_scars_marks c \<and> \<not> detect_dollar_amounts c
     \<and> categorize_occupation c = ''Unknown''"
  by (simp add: count_aliases_def detect_scars_marks_def detect_dollar_amounts_def categorize_occupation_def)

subsection \<open>A height that does not fit a float\<close>

lemma is_space_simps: "is_space CHR '' ''" "\<not> is_space CHR ''f''" "\<not> is_space CHR ''t''"
  by (simp_all add: is_space_def)

lemma tail_match:
  "ms (seqs [spaces0, alts [lit ''ft'', lit ''foot'', lit ''feet'', lit [CHR 0x27, CHR '' '']], spaces0,
     Opt (Grp 2 (digits 1 2))]) \<lparr>prev = Some CHR ''9'', rest = '' ft'', groups = G\<rparr>
   = [\<lparr>prev = Some CHR ''t'', rest = [], groups = G\<rparr>]"
  by (simp add: pattern_simps rep_counts_def is_space_simps upt_rec)

lemma consume_replicate:
  "0 < n \<Longrightarrow> consume n \<lparr>prev = b, rest = replicate n c @ r, groups = G\<rparr> = \<lparr>prev = Some c, rest = r, groups = G\<rparr>"
proof (induction n arbitrary: b)
  case 0
  then show ?case by simp
next
  case (Suc n)
  then show ?case by (cases n) simp_all
qed

lemma takeWhile_run:
  "is_digit c \<Longrightarrow> \<not> is_digit c' \<Longrightarrow> takeWhile is_digit (replicate n c @ c' # r) = replicate n c"
  by (induction n) simp_all

lemma rep_counts_digits1:
  assumes "0 < n" "\<not> is_digit c'" "is_digit c"
  shows "\<exists>ks. rep_counts (Suc 0) None is_digit (replicate n c @ c' # r) = n # ks"
proof -
  have "rep_counts (Suc 0) None is_digit (replicate n c @ c' # r) = rev [Suc 0..<Suc n]"
    using assms by (simp add: rep_counts_def takeWhile_run)
  also have "\<dots> = n # rev [Suc 0..<n]" using assms(1) by simp
  finally show ?thesis by blast
qed

lemma ms_feet_digits:
  assumes "0 < n" "\<not> is_digit c'" "is_digit c"
  shows "\<exists>tl. ms (Grp 1 digits1) \<lparr>prev = b, rest = replicate n c @ c' # r, groups = G\<rparr> =
    \<lparr>prev = Some c, rest = c' # r, groups = G(1 \<mapsto> replicate n c)\<rparr> # tl"
proof -
  from rep_counts_digits1 [OF assms] obtain ks where
    k: "rep_counts (Suc 0) None is_digit (replicate n c @ c' # r) = n # ks" by blast
  show ?thesis
    by (simp add: k consume_replicate [OF assms(1)])
qed

lemma search_from_hit: "ms r (start_state b s) = x # xs \<Longrightarrow> search_from r b sk s = Some (sk, x)"
  by (cases s) simp_all

lemma feet_search:
  assumes "0 < n"
  shows "re_search ft_in_pattern1 (replicate n CHR ''9'' @ '' ft'') =
    Some ((\<lambda>_. None)(1 \<mapsto> replicate n CHR ''9''))"
proof -
  define R where "R = seqs [spaces0, alts [lit ''ft'', lit ''foot'', lit ''feet'', lit [CHR 0x27, CHR '' '']], spaces0,
     Opt (Grp 2 (digits 1 2))]"
  have p: "ft_in_pattern1 = Seq (Grp 1 digits1) R"
    by (simp add: ft_in_pattern1_def R_def seqs_Cons)
  have d: "is_digit CHR ''9''" "\<not> is_digit CHR '' ''" by (simp_all add: is_digit_def)
  from ms_feet_digits [OF assms d(2) d(1)] obtain tl where
    1: "ms (Grp 1 digits1) \<lparr>prev = None, rest = replicate n CHR ''9'' @ CHR '' '' # ''ft'', groups = (\<lambda>_. None)\<rparr> =
      \<lparr>prev = Some CHR ''9'', rest = CHR '' '' # ''ft'', groups = (\<lambda>_. None)(1 \<mapsto> replicate n CHR ''9'')\<rparr> # tl"
    by blast
  have 2: "ms R \<lparr>prev = Some CHR ''9'', rest = CHR '' '' # ''ft'', groups = (\<lambda>_. None)(1 \<mapsto> replicate n CHR ''9'')\<rparr> =
      [\<lparr>prev = Some CHR ''t'', rest = [], groups = (\<lambda>_. None)(1 \<mapsto> replicate n CHR ''9'')\<rparr>]"
    unfolding R_def by (rule tail_match)
  have "ms (Seq (Grp 1 digits1) R) \<lparr>prev = None, rest = replicate n CHR ''9'' @ CHR '' '' # ''ft'', groups = (\<lambda>_. None)\<rparr> =
      concat (map (ms R) (ms (Grp 1 digits1) \<lparr>prev = None, rest = replicate n CHR ''9'' @ CHR '' '' # ''ft'', groups = (\<lambda>_. None)\<rparr>))"
    by (simp only: ms.simps)
  also have "\<dots> = \<lparr>prev = Some CHR ''t'', rest = [], groups = (\<lambda>_. None)(1 \<mapsto> replicate n CHR ''9'')\<rparr>
        # concat (map (ms R) tl)"
    by (simp only: 1 list.map concat.simps 2 append.simps)
  finally have "ms ft_in_pattern1 (start_state None (replicate n CHR ''9'' @ '' ft'')) =
      \<lparr>prev = Some CHR ''t'', rest = [], groups = (\<lambda>_. None)(1 \<mapsto> replicate n CHR ''9'')\<rparr>
        # concat (map (ms R) tl)"
    by (simp only: p start_state_def)
  from search_from_hit [OF this] show ?thesis by (simp add: re_search_def)
qed

lemma digits_val_snoc: "digits_val (xs @ [c]) = 10 * digits_val xs + digit_val c"
  by (simp add: digits_val_def)

lemma digits_val_nines: "digits_val (replicate n CHR ''9'') = 10 ^ n - 1"
proof (induction n)
  case 0
  then show ?case by (simp add: digits_val_def)
next
  case (Suc n)
  have e: "replicate (Suc n) CHR ''9'' = replicate n CHR ''9'' @ [CHR ''9'']"
    by (simp add: replicate_append_same)
  have "digits_val (replicate (Suc n) CHR ''9'') = digits_val (replicate n CHR ''9'' @ [CHR ''9''])"
    by (simp only: e)
  also have "\<dots> = 10 * digits_val (replicate n CHR ''9'') + digit_val CHR ''9''"
    by (rule digits_val_snoc)
  also have "\<dots> = 10 * (10 ^ n - 1) + 9"
    by (simp only: Suc.IH) (simp add: digit_val_def)
  also have "\<dots> = 10 ^ Suc n - 1" by simp
  finally show ?case .
qed

lemma search_needs_char:
  assumes "re_search r s \<noteq> None" "\<And>w. lang r w \<Longrightarrow> \<exists>c \<in> set w. P c"
  shows "\<exists>c \<in> set s. P c"
proof -
  from assms(1) obtain g where "re_search r s = Some g" by auto
  from re_search_word [OF this] obtain pre w post where "s = pre @ w @ post" "lang r w" by blast
  with assms(2) [of w] show ?thesis by auto
qed

lemma lang_SeqD: "lang (Seq a b) w \<Longrightarrow> \<exists>u v. w = u @ v \<and> lang a u \<and> lang b v"
  by simp

lemma lang_lit_within:
  assumes "lang (Seq a (Seq b (Seq (lit s) c))) w"
  shows "set s \<subseteq> set w"
proof -
  from lang_SeqD [OF assms] obtain u1 v1 where 1: "w = u1 @ v1" "lang (Seq b (Seq (lit s) c)) v1"
    by blast
  from lang_SeqD [OF 1(2)] obtain u2 v2 where 2: "v1 = u2 @ v2" "lang (Seq (lit s) c) v2" by blast
  from lang_SeqD [OF 2(2)] obtain u3 v3 where 3: "v2 = u3 @ v3" "lang (lit s) u3" by blast
  from 3(2) have "u3 = s" by (simp add: lang_lit)
  with 1(1) 2(1) 3(1) show ?thesis by auto
qed

lemma cm_pattern_needs:
  assumes "lang cm_pattern w"
  shows "\<exists>c \<in> set w. c = CHR ''c''"
proof -
  from assms have "lang (Seq (Grp 1 (number 2 (Some 3))) (Seq spaces0 (Seq (lit ''cm'') (seqs [WordB])))) w"
    by (simp only: cm_pattern_def seqs_Cons)
  from lang_lit_within [OF this] show ?thesis by simp
qed

lemma m_pattern_needs:
  assumes "lang m_pattern w"
  shows "\<exists>c \<in> set w. c = CHR ''m''"
proof -
  from assms have "lang (Seq (Grp 1 (Seq (Chr is_digit) (Opt (Seq (lit ''.'') (digits 1 2)))))
      (Seq spaces0 (Seq (lit ''m'') (seqs [WordB])))) w"
    by (simp only: m_pattern_def seqs_Cons)
  from lang_lit_within [OF this] show ?thesis by simp
qed

lemma in_pattern_needs:
  assumes "lang in_pattern w"
  shows "\<exists>c \<in> set w. c = CHR ''i'' \<or> c = CHR 0x22"
proof -
  let ?units = "alts [lit ''in'', lit ''inch'', lit ''inches'', lit [CHR 0x22]]"
  from assms have "lang (Seq (Grp 1 (number 2 (Some 3))) (Seq spaces0 (Seq ?units (seqs [WordB])))) w"
    by (simp only: in_pattern_def seqs_Cons)
  from lang_SeqD [OF this] obtain u1 v1 where
    1: "w = u1 @ v1" "lang (Seq spaces0 (Seq ?units (seqs [WordB]))) v1" by blast
  from lang_SeqD [OF 1(2)] obtain u2 v2 where 2: "v1 = u2 @ v2" "lang (Seq ?units (seqs [WordB])) v2"
    by blast
  from lang_SeqD [OF 2(2)] obtain u3 v3 where 3: "v2 = u3 @ v3" "lang ?units u3" by blast
  from 3(2) have "u3 = ''in'' \<or> u3 = ''inch'' \<or> u3 = ''inches'' \<or> u3 = [CHR 0x22]"
    by (simp add: alts_Cons alts_Nil lang_lit)
  then have "CHR ''i'' \<in> set u3 \<or> CHR 0x22 \<in> set u3"
    by (elim disjE) simp_all
  moreover have "set u3 \<subseteq> set w" using 1(1) 2(1) 3(1) by auto
  ultimately show ?thesis by blast
qed

lemma nines_feet_chars:
  "c \<in> set (replicate n CHR ''9'' @ '' ft'') \<Longrightarrow> c \<noteq> CHR ''c'' \<and> c \<noteq> CHR ''m'' \<and> c \<noteq> CHR ''i'' \<and> c \<noteq> CHR 0x22"
  by auto

lemma nines_feet_no_unit:
  "re_search cm_pattern (replicate n CHR ''9'' @ '' ft'') = None"
  "re_search m_pattern (replicate n CHR ''9'' @ '' ft'') = None"
  "re_search in_pattern (replicate n CHR ''9'' @ '' ft'') = None"
proof -
  let ?s = "replicate n CHR ''9'' @ '' ft''"
  show "re_search cm_pattern ?s = None"
  proof (rule ccontr)
    assume "re_search cm_pattern ?s \<noteq> None"
    from search_needs_char [OF this cm_pattern_needs] obtain c where "c \<in> set ?s" "c = CHR ''c''"
      by blast
    with nines_feet_chars [of c n] show False by blast
  qed
  show "re_search m_pattern ?s = None"
  proof (rule ccontr)
    assume "re_search m_pattern ?s \<noteq> None"
    from search_needs_char [OF this m_pattern_needs] obtain c where "c \<in> set ?s" "c = CHR ''m''"
      by blast
    with nines_feet_chars [of c n] show False by blast
  qed
  show "re_search in_pattern ?s = None"
  proof (rule ccontr)
    assume "re_search in_pattern ?s \<noteq> None"
    from search_needs_char [OF this in_pattern_needs] obtain c where
      "c \<in> set ?s" "c = CHR ''i'' \<or> c = CHR 0x22"
      by blast
    with nines_feet_chars [of c n] show False by blast
  qed
qed

lemma height_ft_in_nines:
  assumes "0 < n"
  shows "max_str_digits < n \<Longrightarrow> height_ft_in (replicate n CHR ''9'' @ '' ft'') = Inl ValueError"
    and "n \<le> max_str_digits \<Longrightarrow> 2 ^ 1024 - 2 ^ 970 \<le> \<bar>(10 ^ n - 1) * (12 :: int)\<bar>
           \<Longrightarrow> height_ft_in (replicate n CHR ''9'' @ '' ft'') = Inl OverflowError"
proof -
  have "all_digits (replicate n CHR ''9'')" using assms by (simp add: all_digits_def is_digit_def list_all_iff)
  then have p: "py_int (replicate n CHR ''9'') =
      (if n \<le> max_str_digits then Inr (10 ^ n - 1) else Inl ValueError)"
    by (simp add: py_int_digits digits_val_nines)
  show "height_ft_in (replicate n CHR ''9'' @ '' ft'') = Inl ValueError" if "max_str_digits < n"
    using that p by (simp add: height_ft_in_def feet_search [OF assms] int_group_def)
  show "height_ft_in (replicate n CHR ''9'' @ '' ft'') = Inl OverflowError"
    if "n \<le> max_str_digits" "2 ^ 1024 - 2 ^ 970 \<le> \<bar>(10 ^ n - 1) * (12 :: int)\<bar>"
    using that p by (simp add: height_ft_in_def feet_search [OF assms] int_group_def int_to_float_def)
qed

lemma nines_feet_text:
  assumes "0 < n"
  shows "\<not> is_blank (Str (replicate n CHR ''9'' @ '' ft''))"
    "strip (lower (py_str (Str (replicate n CHR ''9'' @ '' ft'')))) = replicate n CHR ''9'' @ '' ft''"
proof -
  let ?s = "replicate n CHR ''9'' @ '' ft''"
  have l: "lower ?s = ?s" by (simp add: lower_def lower_char_def is_upper_def)
  have "hd ?s = CHR ''9''" using assms by (cases n) simp_all
  then have s: "strip ?s = ?s" by (intro strip_id) (simp_all add: is_space_def)
  show "strip (lower (py_str (Str ?s))) = ?s" by (simp add: py_str_def l s)
  show "\<not> is_blank (Str ?s)" by (simp add: is_blank_def py_str_def s)
qed

lemma parse_height_nines:
  assumes "0 < n"
  shows "parse_height_to_cm (Str (replicate n CHR ''9'' @ '' ft'')) =
     (case height_ft_in (replicate n CHR ''9'' @ '' ft'') of
        Inl e \<Rightarrow> Inl e
      | Inr (Some v) \<Rightarrow> Inr (Some v)
      | Inr None \<Rightarrow> height_num (replicate n CHR ''9'' @ '' ft''))"
proof -
  let ?s = "replicate n CHR ''9'' @ '' ft''"
  have c: "height_cm ?s = Inr None" by (simp only: height_cm_def nines_feet_no_unit option.case)
  have m: "height_m ?s = Inr None" by (simp only: height_m_def nines_feet_no_unit option.case)
  have i: "height_in ?s = Inr None" by (simp only: height_in_def nines_feet_no_unit option.case)
  show ?thesis
    by (simp only: parse_height_to_cm_def nines_feet_text [OF assms] Let_def if_False c m i
        sum.case option.case)
qed

lemma big_feet: "2 ^ 1024 - 2 ^ 970 \<le> \<bar>(10 ^ 400 - 1) * (12 :: int)\<bar>"
  by simp

lemma parse_height_overflow:
  "parse_height_to_cm (Str (replicate 400 CHR ''9'' @ '' ft'')) = Inl OverflowError"
proof -
  have "height_ft_in (replicate 400 CHR ''9'' @ '' ft'') = Inl OverflowError"
    by (rule height_ft_in_nines(2) [OF _ _ big_feet]) (simp_all add: max_str_digits_def)
  then show ?thesis by (simp add: parse_height_nines)
qed

text \<open>More digits than \<^verbatim>\<open>int\<close> converts: the feet-and-inches rule raises \<^verbatim>\<open>ValueError\<close>.\<close>

lemma parse_height_too_long:
  "parse_height_to_cm (Str (replicate 4301 CHR ''9'' @ '' ft'')) = Inl ValueError"
proof -
  have "height_ft_in (replicate 4301 CHR ''9'' @ '' ft'') = Inl ValueError"
    by (rule height_ft_in_nines(1)) (simp_all add: max_str_digits_def)
  then show ?thesis by (simp add: parse_height_nines)
qed

subsection \<open>Which tables the stages accept\<close>

lemma filter_unique:
  "distinct (map fst cs) \<Longrightarrow> name \<in> set (map fst cs) \<Longrightarrow> \<exists>c. filter (\<lambda>c. fst c = name) cs = [c]"
proof (induction cs)
  case Nil
  then show ?case by simp
next
  case (Cons a cs)
  show ?case
  proof (cases "fst a = name")
    case True
    with Cons.prems(1) have "name \<notin> fst ` set cs" by auto
    then have "\<forall>x \<in> set cs. fst x \<noteq> name" by (metis image_eqI)
    then have "filter (\<lambda>c. fst c = name) cs = []"
      by (simp add: filter_empty_conv)
    with True show ?thesis by simp
  next
    case False
    with Cons show ?thesis by auto
  qed
qed

lemma unique_col:
  assumes "distinct (columns df)" "has_col name df"
  shows "\<exists>c. col_values name df = [c]"
proof -
  from assms have "\<exists>c. filter (\<lambda>c. fst c = name) (cols df) = [c]"
    unfolding columns_def has_col_def by (intro filter_unique) simp_all
  then show ?thesis by (auto simp: col_values_def)
qed

lemma apply_col_unique:
  assumes "distinct (columns df)" "has_col name df"
  shows "\<exists>c. col_values name df = [c] \<and> apply_col df name f = map_err f c"
proof -
  from unique_col [OF assms] obtain c where "col_values name df = [c]" by blast
  then show ?thesis by (simp add: apply_col_def)
qed

lemma apply_col_ok:
  assumes "distinct (columns df)" "has_col name df" "\<And>c. \<exists>v. f c = Inr v"
  shows "\<exists>vals. apply_col df name f = Inr vals"
proof -
  from apply_col_unique [OF assms(1,2)] obtain c where c: "apply_col df name f = map_err f c" by blast
  from map_err_ok [of c f] assms(3) obtain vs where "map_err f c = Inr vs" by blast
  with c show ?thesis by simp
qed

lemma apply_col_pure:
  assumes "distinct (columns df)" "has_col name df"
  shows "\<exists>vals. apply_col df name (\<lambda>c. Inr (g c)) = Inr vals"
proof -
  from apply_col_unique [OF assms] obtain c where "apply_col df name (\<lambda>c. Inr (g c)) = map_err (\<lambda>c. Inr (g c)) c"
    by blast
  then show ?thesis by (simp add: map_err_total)
qed

lemma process_aliases_ok: "distinct (columns df) \<Longrightarrow> \<exists>out. process_aliases df = Inr out"
proof (cases "has_col ''alias'' df")
  case False
  then show ?thesis by (simp add: process_aliases_def)
next
  case True
  assume "distinct (columns df)"
  from apply_col_pure [OF this True, of "\<lambda>c. IntV (int (count_aliases c))"]
  obtain vals where "apply_col df ''alias'' (\<lambda>c. Inr (IntV (int (count_aliases c)))) = Inr vals" by blast
  with True show ?thesis by (simp add: process_aliases_def)
qed

lemma process_occupations_ok: "distinct (columns df) \<Longrightarrow> \<exists>out. process_occupations df = Inr out"
proof (cases "has_col ''Occupation'' df")
  case False
  then show ?thesis by (simp add: process_occupations_def)
next
  case True
  assume "distinct (columns df)"
  from apply_col_pure [OF this True, of "\<lambda>c. Str (categorize_occupation c)"]
  obtain vals where "apply_col df ''Occupation'' (\<lambda>c. Inr (Str (categorize_occupation c))) = Inr vals" by blast
  with True show ?thesis by (simp add: process_occupations_def)
qed

lemma process_birth_places_ok: "distinct (columns df) \<Longrightarrow> \<exists>out. process_birth_places df = Inr out"
proof (cases "has_col ''Place of Birth'' df")
  case False
  then show ?thesis by (simp add: process_birth_places_def)
next
  case True
  assume "distinct (columns df)"
  from apply_col_pure [OF this True, of "\<lambda>c. extract_country_from_birth_place c"]
  obtain vals where "apply_col df ''Place of Birth'' (\<lambda>c. Inr (extract_country_from_birth_place c)) = Inr vals"
    by blast
  with True show ?thesis by (simp add: process_birth_places_def)
qed

lemma process_languages_ok: "distinct (columns df) \<Longrightarrow> \<exists>out. process_languages df = Inr out"
proof (cases "has_col ''Languages'' df")
  case False
  then show ?thesis by (simp add: process_languages_def)
next
  case True
  assume "distinct (columns df)"
  from apply_col_pure [OF this True, of "\<lambda>c. split_languages c"]
  obtain vals where "apply_col df ''Languages'' (\<lambda>c. Inr (split_languages c)) = Inr vals" by blast
  with True show ?thesis by (simp add: process_languages_def)
qed

lemma process_hair_color_ok: "distinct (columns df) \<Longrightarrow> \<exists>out. process_hair_color df = Inr out"
proof (cases "has_col ''Hair'' df")
  case False
  then show ?thesis by (simp add: process_hair_color_def)
next
  case True
  assume "distinct (columns df)"
  from apply_col_pure [OF this True, of "\<lambda>c. opt_cell Str (extract_first_hair_color c)"]
  obtain vals where "apply_col df ''Hair'' (\<lambda>c. Inr (opt_cell Str (extract_first_hair_color c))) = Inr vals"
    by blast
  with True show ?thesis by (simp add: process_hair_color_def)
qed

lemma process_marks_ok: "distinct (columns df) \<Longrightarrow> \<exists>out. process_marks df = Inr out"
proof (cases "has_col ''Scars and Marks'' df")
  case False
  then show ?thesis by (simp add: process_marks_def)
next
  case True
  assume "distinct (columns df)"
  from apply_col_pure [OF this True, of "\<lambda>c. BoolV (detect_scars_marks c)"]
  obtain vals where "apply_col df ''Scars and Marks'' (\<lambda>c. Inr (BoolV (detect_scars_marks c))) = Inr vals"
    by blast
  with True show ?thesis by (simp add: process_marks_def)
qed

lemma process_caution_ok: "distinct (columns df) \<Longrightarrow> \<exists>out. process_caution df = Inr out"
proof (cases "has_col ''caution'' df")
  case False
  then show ?thesis by (simp add: process_caution_def)
next
  case True
  assume "distinct (columns df)"
  from apply_col_pure [OF this True, of "\<lambda>c. BoolV (detect_dollar_amounts c)"]
  obtain vals where "apply_col df ''caution'' (\<lambda>c. Inr (BoolV (detect_dollar_amounts c))) = Inr vals"
    by blast
  with True show ?thesis by (simp add: process_caution_def)
qed

lemma process_marks_and_caution_ok:
  assumes "distinct (columns df)"
  shows "\<exists>out. process_marks_and_caution df = Inr out"
proof -
  from process_marks_ok [OF assms] obtain m where m: "process_marks df = Inr m" by blast
  from process_marks_touches [OF m] assms have "distinct (columns m)" by (simp add: touches_def)
  from process_caution_ok [OF this] m show ?thesis by (simp add: process_marks_and_caution_def)
qed

lemma process_weight_ok: "distinct (columns df) \<Longrightarrow> \<exists>out. process_weight df = Inr out"
proof (cases "has_col ''Weight'' df")
  case False
  then show ?thesis by (simp add: process_weight_def)
next
  case True
  assume d: "distinct (columns df)"
  have "\<exists>v. bind_err (parse_weight_to_kg c) (\<lambda>v. Inr (opt_cell FloatV v)) = Inr v" for c
    using parse_weight_ok [of c] by auto
  from apply_col_ok [OF d True, of "\<lambda>c. bind_err (parse_weight_to_kg c) (\<lambda>v. Inr (opt_cell FloatV v))", OF this]
  obtain vals where "apply_col df ''Weight'' (\<lambda>c. bind_err (parse_weight_to_kg c) (\<lambda>v. Inr (opt_cell FloatV v))) = Inr vals"
    by auto
  with True show ?thesis by (simp add: process_weight_def)
qed

lemma process_dates_and_ages_ok:
  assumes "distinct (columns df)"
  shows "\<exists>out. process_dates_and_ages df = Inr out"
proof (cases "filter (\<lambda>c. has_col c df) dob_labels")
  case Nil
  then show ?thesis by (simp add: process_dates_and_ages_def)
next
  case (Cons dob_col cs)
  then have "dob_col \<in> set (filter (\<lambda>c. has_col c df) dob_labels)" by simp
  then have h: "has_col dob_col df" by simp
  have "\<exists>v. bind_err (parse_date c) (\<lambda>d. Inr (opt_cell DateV d)) = Inr v" for c
    using parse_date_ok [of c] by auto
  from apply_col_ok [OF assms h, of "\<lambda>c. bind_err (parse_date c) (\<lambda>d. Inr (opt_cell DateV d))", OF this]
  obtain dates where d: "apply_col df dob_col (\<lambda>c. bind_err (parse_date c) (\<lambda>d. Inr (opt_cell DateV d))) = Inr dates"
    by auto
  define df1 where "df1 = set_col dob_col dates df"
  have d1: "distinct (columns df1)" "has_col dob_col df1"
    by (simp_all add: df1_def distinct_set_col assms has_col_set_col)
  from apply_col_pure [OF d1, of "\<lambda>c. opt_cell IntV (compute_age (cell_date c) TODAY)"]
  obtain ages where a: "apply_col df1 dob_col (\<lambda>c. Inr (opt_cell IntV (compute_age (cell_date c) TODAY))) = Inr ages"
    by blast
  define df2 where "df2 = set_col ''age_years'' ages df1"
  have d2: "distinct (columns df2)" "has_col dob_col df2"
    by (simp_all add: df2_def distinct_set_col d1 has_col_set_col)
  from apply_col_pure [OF d2, of "\<lambda>c. opt_cell Str (zodiac_sign (cell_date c))"]
  obtain signs where z: "apply_col df2 dob_col (\<lambda>c. Inr (opt_cell Str (zodiac_sign (cell_date c)))) = Inr signs"
    by blast
  show ?thesis
    unfolding process_dates_and_ages_def Cons
    using d a z by (simp add: Let_def df1_def [symmetric] df2_def [symmetric])
qed

lemma first_fault_Some: "first_fault (map f xs) = Some e \<Longrightarrow> map_err f xs = Inl e"
proof (induction xs)
  case Nil
  then show ?case by simp
next
  case (Cons x xs)
  then show ?case by (cases "f x") simp_all
qed

lemma first_fault_None: "first_fault (map f xs) = None \<Longrightarrow> \<exists>ys. map_err f xs = Inr ys"
proof (induction xs)
  case Nil
  then show ?case by simp
next
  case (Cons x xs)
  then show ?case by (cases "f x") auto
qed

lemma first_fault_bind:
  "first_fault (map (\<lambda>x. bind_err (g x) (\<lambda>v. Inr (h v))) xs) = first_fault (map g xs)"
proof (induction xs)
  case Nil
  then show ?case by simp
next
  case (Cons x xs)
  then show ?case by (cases "g x") simp_all
qed

lemma process_height_cases:
  assumes "distinct (columns df)"
  shows "case height_fault df of
           Some e \<Rightarrow> process_height df = Inl e
         | None \<Rightarrow> (\<exists>out. process_height df = Inr out)"
proof (cases "has_col ''Height'' df")
  case False
  then have "col_values ''Height'' df = []" by (simp add: has_col_values)
  with False show ?thesis by (simp add: process_height_def height_fault_def)
next
  case True
  let ?f = "\<lambda>c. bind_err (parse_height_to_cm c) (\<lambda>v. Inr (opt_cell FloatV v))"
  from apply_col_unique [OF assms True] obtain c where c: "col_values ''Height'' df = [c]"
    "apply_col df ''Height'' ?f = map_err ?f c" by blast
  have h: "height_fault df = first_fault (map ?f c)"
    by (simp add: height_fault_def c(1) first_fault_bind)
  show ?thesis
  proof (cases "height_fault df")
    case None
    with h have "first_fault (map ?f c) = None" by simp
    from first_fault_None [OF this] obtain ys where "map_err ?f c = Inr ys" by blast
    with c(2) True None show ?thesis by (simp add: process_height_def)
  next
    case (Some e)
    with h have "first_fault (map ?f c) = Some e" by simp
    from first_fault_Some [OF this] c(2) True Some show ?thesis by (simp add: process_height_def)
  qed
qed

lemma height_not_derived: "''Height'' \<notin> set ([''alias_count''] @ (dob_labels @ [''age_years'', ''zodiac_sign''])
     @ [''occupation_category''] @ [''birth_country'', ''birth_country_code'']
     @ [''Language_1'', ''Language_2'', ''Language_3''] @ [''hair_color''])"
  by (simp add: dob_labels_def)

lemma distinct_one_column: "distinct (columns df) \<Longrightarrow> length (col_values name df) \<le> 1"
proof (cases "has_col name df")
  case True
  assume "distinct (columns df)"
  from unique_col [OF this True] show ?thesis by auto
next
  case False
  then show ?thesis by (simp add: has_col_values)
qed

lemma finalise_distinct:
  assumes "distinct (columns df)"
  shows "rename_and_reorganize_columns (remove_unused_columns df) = Inr (reordered (remove_unused_columns df))"
proof (rule finalise_ok)
  have "length (col_values col (reordered (remove_unused_columns df))) \<le> 1" if "col \<in> set bool_cols" for col
  proof -
    from that have "stable_label col" "col \<notin> set cols_to_drop"
      by (auto simp: bool_cols_def stable_label_def rename_map_def cols_to_drop_def)
    then have "col_values col (reordered (remove_unused_columns df)) = col_values col df"
      by (rule col_values_final)
    with distinct_one_column [OF assms, of col] show ?thesis by simp
  qed
  then have h: "\<And>col. col \<in> set bool_cols \<Longrightarrow>
      \<not> 1 < length (col_values col (reordered (remove_unused_columns df)))"
    by (simp add: not_less)
  show "\<not> list_ex (\<lambda>col. has_col col (reordered (remove_unused_columns df))
      \<and> 1 < length (col_values col (reordered (remove_unused_columns df)))) bool_cols"
    unfolding list_ex_iff using h by blast
qed

lemma clean_dataframe_cases:
  assumes "distinct (columns df)"
  shows "case height_fault df of
           Some e \<Rightarrow> clean_dataframe df = Inl e
         | None \<Rightarrow> (\<exists>out. clean_dataframe df = Inr out)"
proof -
  from process_aliases_ok [OF assms] obtain d1 where 1: "process_aliases df = Inr d1" by blast
  note t1 = process_aliases_touches [OF 1]
  from t1 assms have c1: "distinct (columns d1)" by (simp add: touches_def)
  from process_dates_and_ages_ok [OF c1] obtain d2 where 2: "process_dates_and_ages d1 = Inr d2" by blast
  note t2 = touches_trans [OF t1 process_dates_and_ages_touches [OF 2]]
  from t2 assms have c2: "distinct (columns d2)" by (simp add: touches_def)
  from process_occupations_ok [OF c2] obtain d3 where 3: "process_occupations d2 = Inr d3" by blast
  note t3 = touches_trans [OF t2 process_occupations_touches [OF 3]]
  from t3 assms have c3: "distinct (columns d3)" by (simp add: touches_def)
  from process_birth_places_ok [OF c3] obtain d4 where 4: "process_birth_places d3 = Inr d4" by blast
  note t4 = touches_trans [OF t3 process_birth_places_touches [OF 4]]
  from t4 assms have c4: "distinct (columns d4)" by (simp add: touches_def)
  from process_languages_ok [OF c4] obtain d5 where 5: "process_languages d4 = Inr d5" by blast
  note t5 = touches_trans [OF t4 process_languages_touches [OF 5]]
  from t5 assms have c5: "distinct (columns d5)" by (simp add: touches_def)
  from process_hair_color_ok [OF c5] obtain d6 where 6: "process_hair_color d5 = Inr d6" by blast
  note t6 = touches_trans [OF t5 process_hair_color_touches [OF 6]]
  from t6 assms have c6: "distinct (columns d6)" by (simp add: touches_def)
  have "col_values ''Height'' d6 = col_values ''Height'' df"
    by (rule touches_col [OF t6]) (simp add: dob_labels_def)
  then have ho: "height_fault d6 = height_fault df" by (simp add: height_fault_def)
  note s = 1 2 3 4 5 6
  show ?thesis
  proof (cases "height_fault df")
    case (Some e)
    with process_height_cases [OF c6] ho have "process_height d6 = Inl e" by simp
    with Some show ?thesis
      by (simp add: clean_dataframe_def s process_physical_measurements_def)
  next
    case None
    with process_height_cases [OF c6] ho obtain h where h: "process_height d6 = Inr h" by auto
    from process_height_touches [OF h] c6 have ch: "distinct (columns h)" by (simp add: touches_def)
    from process_weight_ok [OF ch] obtain d7 where w: "process_weight h = Inr d7" by blast
    from process_weight_touches [OF w] ch have c7: "distinct (columns d7)" by (simp add: touches_def)
    from process_marks_and_caution_ok [OF c7] obtain d8 where 8: "process_marks_and_caution d7 = Inr d8"
      by blast
    from process_marks_and_caution_touches [OF 8] c7 have c8: "distinct (columns d8)"
      by (simp add: touches_def)
    from None show ?thesis
      by (simp add: clean_dataframe_def s process_physical_measurements_def h w 8 finalise_distinct [OF c8])
  qed
qed

section \<open>The pipeline on whole tables\<close>

lemma touches_new:
  "touches ts df out \<Longrightarrow> has_col name out \<Longrightarrow> name \<notin> set ts \<Longrightarrow> has_col name df"
  by (auto simp: touches_def)

lemma bind_err_assoc: "bind_err (bind_err m f) g = bind_err m (\<lambda>x. bind_err (f x) g)"
  by (cases m) simp_all

lemma clean_dataframe_stages:
  "clean_dataframe df = bind_err (stages df) (\<lambda>out. rename_and_reorganize_columns (remove_unused_columns out))"
  by (simp only: clean_dataframe_def stages_def bind_err_assoc)

lemma clean_dataframe_eval:
  "stages df = Inr d8 \<Longrightarrow> rename_and_reorganize_columns (remove_unused_columns d8) = Inr out
     \<Longrightarrow> clean_dataframe df = Inr out"
  by (simp add: clean_dataframe_stages)

lemma sample_frame_cleaned: "clean_dataframe sample_frame = Inr sample_cleaned"
  by (rule clean_dataframe_eval [of _ "projr (stages sample_frame)"]; code_simp)

lemma sparse_frame_cleaned: "clean_dataframe sparse_frame = Inr sparse_cleaned"
  by (rule clean_dataframe_eval [of _ "projr (stages sparse_frame)"]; code_simp)

lemma sample_frame_labels: "distinct (columns sample_frame)"
  by (simp add: columns_def sample_frame_def)

lemma sample_frame_text: "text_frame sample_frame"
  by (simp add: text_frame_def text_cell_def sample_frame_def)

lemma sample_frame_heights: "height_fault sample_frame = None"
  by code_simp

lemma overflow_frame_height: "height_fault overflow_frame = Some OverflowError"
  using parse_height_overflow by (simp add: height_fault_def overflow_frame_def col_values_def)

lemma no_source_no_column:
  assumes "clean_dataframe df = Inr out"
  shows "\<not> has_col ''alias'' df \<Longrightarrow> \<not> has_col ''alias_count'' df \<Longrightarrow> \<not> has_col ''alias_count'' out"
    and "\<not> has_col ''Occupation'' df \<Longrightarrow> \<not> has_col ''occupation_category'' df
           \<Longrightarrow> \<not> has_col ''occupation_category'' out"
    and "\<not> has_col ''Scars and Marks'' df \<Longrightarrow> \<not> has_col ''has_mark'' df \<Longrightarrow> \<not> has_col ''has_mark'' out"
    and "\<not> has_col ''caution'' df \<Longrightarrow> \<not> has_col ''has_caution'' df \<Longrightarrow> \<not> has_col ''has_caution'' out"
proof -
  from clean_dataframe_Inr [OF assms(1)] obtain d1 d2 d3 d4 d5 d6 d7 d8 where s:
    "process_aliases df = Inr d1" "process_dates_and_ages d1 = Inr d2"
    "process_occupations d2 = Inr d3" "process_birth_places d3 = Inr d4"
    "process_languages d4 = Inr d5" "process_hair_color d5 = Inr d6"
    "process_physical_measurements d6 = Inr d7" "process_marks_and_caution d7 = Inr d8"
    "out = reordered (remove_unused_columns d8)" by blast
  from process_marks_and_caution_Inr [OF s(8)] obtain m where m:
    "process_marks d7 = Inr m" "process_caution m = Inr d8" by blast
  note t1 = process_aliases_touches [OF s(1)]
  note t2 = process_dates_and_ages_touches [OF s(2)]
  note t3 = process_occupations_touches [OF s(3)]
  note t4 = process_birth_places_touches [OF s(4)]
  note t5 = process_languages_touches [OF s(5)]
  note t6 = process_hair_color_touches [OF s(6)]
  note t7 = process_physical_measurements_touches [OF s(7)]
  note t8a = process_marks_touches [OF m(1)]
  note t8b = process_caution_touches [OF m(2)]
  note t47 = touches_trans [OF t4 touches_trans [OF t5 touches_trans [OF t6 t7]]]
  note t12 = touches_trans [OF t1 t2]
  note t17 = touches_trans [OF t12 touches_trans [OF t3 t47]]
  note t28 = touches_trans [OF t2 touches_trans [OF t3 touches_trans [OF t47 touches_trans [OF t8a t8b]]]]
  note t48 = touches_trans [OF t47 touches_trans [OF t8a t8b]]
  note t1m = touches_trans [OF t17 t8a]
  show "\<not> has_col ''alias_count'' out"
    if a: "\<not> has_col ''alias'' df" and b: "\<not> has_col ''alias_count'' df"
  proof -
    from s(1) a have d1: "d1 = df" by (simp add: process_aliases_def)
    have "col_values ''alias_count'' out = col_values ''alias_count'' d8"
      unfolding s(9) by (rule col_values_final) (rule derived_kept)+
    also have "\<dots> = col_values ''alias_count'' d1"
      by (rule touches_col [OF t28]) (simp add: dob_labels_def)
    finally show ?thesis using b d1 by (simp add: has_col_values)
  qed
  show "\<not> has_col ''occupation_category'' out"
    if a: "\<not> has_col ''Occupation'' df" and b: "\<not> has_col ''occupation_category'' df"
  proof -
    have "\<not> has_col ''Occupation'' d2"
      using touches_new [OF t12, of "''Occupation''"] a by (auto simp: dob_labels_def)
    with s(3) have d3: "d3 = d2" by (simp add: process_occupations_def)
    have "col_values ''occupation_category'' out = col_values ''occupation_category'' d8"
      unfolding s(9) by (rule col_values_final) (rule derived_kept)+
    also have "\<dots> = col_values ''occupation_category'' d3"
      by (rule touches_col [OF t48]) simp
    also have "\<dots> = col_values ''occupation_category'' df"
      unfolding d3 by (rule touches_col [OF t12]) (simp add: dob_labels_def)
    finally show ?thesis using b by (simp add: has_col_values)
  qed
  show "\<not> has_col ''has_mark'' out"
    if a: "\<not> has_col ''Scars and Marks'' df" and b: "\<not> has_col ''has_mark'' df"
  proof -
    have "\<not> has_col ''Scars and Marks'' d7"
      using touches_new [OF t17, of "''Scars and Marks''"] a by (auto simp: dob_labels_def)
    with m(1) have d7: "m = d7" by (simp add: process_marks_def)
    have "col_values ''has_mark'' out = col_values ''has_mark'' d8"
      unfolding s(9) by (rule col_values_final) (rule derived_kept)+
    also have "\<dots> = col_values ''has_mark'' m"
      by (rule touches_col [OF t8b]) simp
    also have "\<dots> = col_values ''has_mark'' df"
      unfolding d7 by (rule touches_col [OF t17]) (simp add: dob_labels_def)
    finally show ?thesis using b by (simp add: has_col_values)
  qed
  show "\<not> has_col ''has_caution'' out"
    if a: "\<not> has_col ''caution'' df" and b: "\<not> has_col ''has_caution'' df"
  proof -
    have "\<not> has_col ''caution'' m"
      using touches_new [OF t1m, of "''caution''"] a by (auto simp: dob_labels_def)
    with m(2) have d8: "d8 = m" by (simp add: process_caution_def)
    have "col_values ''has_caution'' out = col_values ''has_caution'' d8"
      unfolding s(9) by (rule col_values_final) (rule derived_kept)+
    also have "\<dots> = col_values ''has_caution'' df"
      unfolding d8 by (rule touches_col [OF t1m]) (simp add: dob_labels_def)
    finally show ?thesis using b by (simp add: has_col_values)
  qed
qed

subsection \<open>Rows\<close>

text \<open>
  Claim C2. Whenever \<^verbatim>\<open>clean_dataframe\<close> returns, the result has as many rows as the
  input and its columns \<^verbatim>\<open>url\<close> are those of the input, cell by cell in the same order:
  row \<open>i\<close> of the result is the subject of row \<open>i\<close> of the input. Every column of the
  result has one cell per row when that holds of the input.
\<close>

theorem clean_dataframe_keeps_rows:
  assumes "clean_dataframe df = Inr out"
  shows "n_rows out = n_rows df
       \<and> col_values ''url'' out = col_values ''url'' df
       \<and> (\<forall>i < n_rows df. row_field ''url'' out i = row_field ''url'' df i)
       \<and> (wf_frame df \<longrightarrow> wf_frame out)"
proof (intro conjI allI impI)
  from clean_dataframe_touches [OF assms] obtain d8 where t: "touches derived_labels df d8"
    and o: "out = reordered (remove_unused_columns d8)" by blast
  show n: "n_rows out = n_rows df" using t by (simp add: o n_rows_finalise n_rows_remove touches_def)
  have "col_values ''url'' out = col_values ''url'' d8"
    unfolding o by (rule col_values_final) (rule url_kept)+
  also have "\<dots> = col_values ''url'' df" using t url_not_derived by (simp add: touches_def)
  finally show u: "col_values ''url'' out = col_values ''url'' df" .
  then show "row_field ''url'' out i = row_field ''url'' df i" for i by (simp add: row_field_def)
  show "wf_frame out" if "wf_frame df"
    using t that by (simp add: o wf_finalise wf_remove touches_def)
qed

theorem clean_dataframe_keeps_rows_witness:
  "clean_dataframe sample_frame = Inr sample_cleaned
   \<and> n_rows sample_cleaned = 2 \<and> n_rows sample_frame = 2
   \<and> row_field ''url'' sample_cleaned 0 = row_field ''url'' sample_frame 0
   \<and> row_field ''url'' sample_cleaned 1 = row_field ''url'' sample_frame 1
   \<and> wf_frame sample_frame \<and> wf_frame sample_cleaned"
proof -
  note c = sample_frame_cleaned
  have n: "n_rows sample_frame = 2" by (simp add: sample_frame_def)
  have w: "wf_frame sample_frame" by (simp add: wf_frame_def sample_frame_def)
  from clean_dataframe_keeps_rows [OF c]
  have k: "n_rows sample_cleaned = n_rows sample_frame"
    "\<forall>i < n_rows sample_frame. row_field ''url'' sample_cleaned i = row_field ''url'' sample_frame i"
    "wf_frame sample_frame \<longrightarrow> wf_frame sample_cleaned"
    by blast+
  from k(2) n have "row_field ''url'' sample_cleaned 0 = row_field ''url'' sample_frame 0"
    "row_field ''url'' sample_cleaned 1 = row_field ''url'' sample_frame 1" by simp_all
  with k(1,3) n w c show ?thesis by simp
qed

subsection \<open>Faults of the parsers\<close>

text \<open>
  One height of four hundred nines in feet makes \<^verbatim>\<open>parse_height_to_cm\<close> raise: the
  exception is not caught, the pipeline raises it, and the second profile, whose height
  is an ordinary one, gets no result either.
\<close>

theorem overflow_frame_aborts:
  "parse_height_to_cm (Str ''180 cm'') = Inr (Some 180)
   \<and> clean_dataframe overflow_frame = Inl OverflowError"
proof -
  have d: "distinct (columns overflow_frame)" by (simp add: columns_def overflow_frame_def)
  have "parse_height_to_cm (Str ''180 cm'') = Inr (Some 180)" by code_simp
  with clean_dataframe_cases [OF d] overflow_frame_height show ?thesis by simp
qed

text \<open>
  Claim C4, as the code has it. No stage catches anything: a stage hands every cell of
  its column to the parser, and an exception raised on one cell ends the stage and the
  pipeline, so that no record is processed further. On a table of scraped text with
  distinct labels: the date stage returns; when \<^verbatim>\<open>parse_height_to_cm\<close> raises on a cell of
  \<^verbatim>\<open>Height\<close>, \<^verbatim>\<open>process_physical_measurements\<close> and \<^verbatim>\<open>clean_dataframe\<close> raise the exception of
  the first such cell; when it raises on none, both return.
\<close>

theorem parser_fault_propagates:
  assumes "distinct (columns df)" "text_frame df"
  shows "(\<exists>out. process_dates_and_ages df = Inr out)
    \<and> (case height_fault df of
          Some e \<Rightarrow> process_physical_measurements df = Inl e \<and> clean_dataframe df = Inl e
        | None \<Rightarrow> (\<exists>out. process_physical_measurements df = Inr out)
                   \<and> (\<exists>out. clean_dataframe df = Inr out))"
proof -
  have p: "case height_fault df of
             Some e \<Rightarrow> process_physical_measurements df = Inl e
           | None \<Rightarrow> (\<exists>out. process_physical_measurements df = Inr out)"
  proof (cases "height_fault df")
    case (Some e)
    with process_height_cases [OF assms(1)] show ?thesis by (simp add: process_physical_measurements_def)
  next
    case None
    with process_height_cases [OF assms(1)] obtain h where h: "process_height df = Inr h" by auto
    from process_height_touches [OF h] assms(1) have "distinct (columns h)" by (simp add: touches_def)
    from process_weight_ok [OF this] h None show ?thesis
      by (simp add: process_physical_measurements_def)
  qed
  from process_dates_and_ages_ok [OF assms(1)] clean_dataframe_cases [OF assms(1)] p
  show ?thesis by (cases "height_fault df") simp_all
qed

theorem parser_fault_propagates_witness:
  "distinct (columns sample_frame) \<and> text_frame sample_frame \<and> height_fault sample_frame = None
   \<and> (\<exists>out. process_dates_and_ages sample_frame = Inr out)
   \<and> (\<exists>out. process_physical_measurements sample_frame = Inr out)
   \<and> (\<exists>out. clean_dataframe sample_frame = Inr out)"
  using parser_fault_propagates [OF sample_frame_labels sample_frame_text]
    sample_frame_labels sample_frame_text sample_frame_heights
  by simp

subsection \<open>The fields that are always set\<close>

text \<open>
  The stages are guarded by \<^verbatim>\<open>if "alias" in df.columns\<close> and the like: a table whose
  profiles have no row \<^verbatim>\<open>Occupation\<close> and no row \<^verbatim>\<open>Scars and Marks\<close> comes out without the
  columns \<^verbatim>\<open>occupation_category\<close> and \<^verbatim>\<open>has_mark\<close>.
\<close>

theorem sparse_frame_lacks_fields:
  "clean_dataframe sparse_frame = Inr sparse_cleaned
   \<and> \<not> has_col ''occupation_category'' sparse_cleaned \<and> \<not> has_col ''has_mark'' sparse_cleaned"
  using sparse_frame_cleaned by (simp add: has_col_def columns_def sparse_cleaned_def)

text \<open>Cells that only Python's wider notion of white space and of a word decides.\<close>

lemma latin1_cells:
  "count_aliases (Str [CHR 0xA0]) = 0"
  "\<not> detect_dollar_amounts (Str [CHR 0x85])"
  "\<not> detect_scars_marks (Str (''scar'' @ [CHR 0xE9]))"
  "detect_scars_marks (Str ''a scar'')"
  by code_simp+

text \<open>
  Claim C5, as the code has it. On a table of scraped text with distinct labels on which
  \<^verbatim>\<open>clean_dataframe\<close> returns, each of the four fields whose source column is in the
  input is in the result, and is the source column mapped cell by cell:
  \<^verbatim>\<open>alias_count\<close> a natural number, \<^verbatim>\<open>has_mark\<close> and \<^verbatim>\<open>has_caution\<close> booleans,
  \<^verbatim>\<open>occupation_category\<close> a key of the keyword table or \<^verbatim>\<open>Other\<close>; on a blank cell they are
  0, false, false and \<^verbatim>\<open>Unknown\<close>. A field whose source column is not in the input is not
  added.
\<close>

theorem always_present_fields:
  assumes "clean_dataframe df = Inr out" "distinct (columns df)" "text_frame df"
  shows "(has_col ''alias'' df \<longrightarrow>
            derived_from ''alias'' ''alias_count'' (\<lambda>c. IntV (int (count_aliases c))) df out)
    \<and> (has_col ''Occupation'' df \<longrightarrow>
            derived_from ''Occupation'' ''occupation_category'' (\<lambda>c. Str (categorize_occupation c)) df out)
    \<and> (has_col ''Scars and Marks'' df \<longrightarrow>
            derived_from ''Scars and Marks'' ''has_mark'' (\<lambda>c. BoolV (detect_scars_marks c)) df out)
    \<and> (has_col ''caution'' df \<longrightarrow>
            derived_from ''caution'' ''has_caution'' (\<lambda>c. BoolV (detect_dollar_amounts c)) df out)
    \<and> (\<forall>c. text_cell c \<longrightarrow> categorize_occupation c \<in> set (map fst OCCUPATION_KEYWORDS) \<union> {''Other''})
    \<and> (\<forall>c. text_cell c \<and> is_blank c \<longrightarrow> count_aliases c = 0 \<and> \<not> detect_scars_marks c
              \<and> \<not> detect_dollar_amounts c \<and> categorize_occupation c = ''Unknown'')
    \<and> (\<not> has_col ''alias'' df \<and> \<not> has_col ''alias_count'' df \<longrightarrow> \<not> has_col ''alias_count'' out)
    \<and> (\<not> has_col ''Occupation'' df \<and> \<not> has_col ''occupation_category'' df
          \<longrightarrow> \<not> has_col ''occupation_category'' out)
    \<and> (\<not> has_col ''Scars and Marks'' df \<and> \<not> has_col ''has_mark'' df \<longrightarrow> \<not> has_col ''has_mark'' out)
    \<and> (\<not> has_col ''caution'' df \<and> \<not> has_col ''has_caution'' df \<longrightarrow> \<not> has_col ''has_caution'' out)"
  using always_present_derived [OF assms(1)] no_source_no_column [OF assms(1)]
    categorize_occupation_range blank_defaults
  by blast

theorem always_present_fields_witness:
  "clean_dataframe sample_frame = Inr sample_cleaned
   \<and> distinct (columns sample_frame) \<and> text_frame sample_frame
   \<and> has_col ''alias'' sample_frame \<and> has_col ''Occupation'' sample_frame
   \<and> has_col ''Scars and Marks'' sample_frame \<and> has_col ''caution'' sample_frame
   \<and> derived_from ''alias'' ''alias_count'' (\<lambda>c. IntV (int (count_aliases c))) sample_frame sample_cleaned
   \<and> derived_from ''Occupation'' ''occupation_category'' (\<lambda>c. Str (categorize_occupation c))
        sample_frame sample_cleaned
   \<and> derived_from ''Scars and Marks'' ''has_mark'' (\<lambda>c. BoolV (detect_scars_marks c))
        sample_frame sample_cleaned
   \<and> derived_from ''caution'' ''has_caution'' (\<lambda>c. BoolV (detect_dollar_amounts c))
        sample_frame sample_cleaned
   \<and> col_values ''alias_count'' sample_cleaned = [[IntV 2, IntV 0]]
   \<and> col_values ''occupation_category'' sample_cleaned = [[Str ''IT/Technology'', Str ''Unknown'']]
   \<and> col_values ''has_mark'' sample_cleaned = [[BoolV True, BoolV False]]
   \<and> col_values ''has_caution'' sample_cleaned = [[BoolV True, BoolV False]]
   \<and> text_cell NA \<and> is_blank NA"
proof -
  have h: "has_col ''alias'' sample_frame" "has_col ''Occupation'' sample_frame"
    "has_col ''Scars and Marks'' sample_frame" "has_col ''caution'' sample_frame"
    by (simp_all add: has_col_def columns_def sample_frame_def)
  have v: "col_values ''alias_count'' sample_cleaned = [[IntV 2, IntV 0]]"
    "col_values ''occupation_category'' sample_cleaned = [[Str ''IT/Technology'', Str ''Unknown'']]"
    "col_values ''has_mark'' sample_cleaned = [[BoolV True, BoolV False]]"
    "col_values ''has_caution'' sample_cleaned = [[BoolV True, BoolV False]]"
    by (simp_all add: col_values_def sample_cleaned_def)
  have b: "text_cell NA" "is_blank NA" by (simp_all add: is_blank_def text_cell_def)
  from always_present_fields [OF sample_frame_cleaned sample_frame_labels sample_frame_text] h
  have "derived_from ''alias'' ''alias_count'' (\<lambda>c. IntV (int (count_aliases c))) sample_frame sample_cleaned"
    "derived_from ''Occupation'' ''occupation_category'' (\<lambda>c. Str (categorize_occupation c))
        sample_frame sample_cleaned"
    "derived_from ''Scars and Marks'' ''has_mark'' (\<lambda>c. BoolV (detect_scars_marks c))
        sample_frame sample_cleaned"
    "derived_from ''caution'' ''has_caution'' (\<lambda>c. BoolV (detect_dollar_amounts c))
        sample_frame sample_cleaned"
    by blast+
  with h v b sample_frame_cleaned sample_frame_labels sample_frame_text show ?thesis by simp
qed

subsection \<open>A second pass\<close>

lemma fold_new_absorb:
  "set xs \<subseteq> set acc \<Longrightarrow>
     fold (\<lambda>col order. if col \<notin> set order then order @ [col] else order) xs acc = acc"
  by (induction xs arbitrary: acc) auto

lemma fold_new_prefix:
  "\<exists>q. fold (\<lambda>col order. if col \<notin> set order then order @ [col] else order) xs acc = acc @ q"
proof (induction xs arbitrary: acc)
  case Nil
  then show ?case by simp
next
  case (Cons x xs)
  show ?case
  proof (cases "x \<in> set acc")
    case True
    with Cons [of acc] show ?thesis by simp
  next
    case False
    from Cons [of "acc @ [x]"] obtain q where
      "fold (\<lambda>col order. if col \<notin> set order then order @ [col] else order) xs (acc @ [x]) = (acc @ [x]) @ q"
      by blast
    with False show ?thesis by simp
  qed
qed

lemma fold_new_run:
  assumes "xs \<noteq> []" "set xs \<subseteq> {l}" "l \<notin> set acc"
  shows "fold (\<lambda>col order. if col \<notin> set order then order @ [col] else order) xs acc = acc @ [l]"
proof -
  from assms(1,2) obtain ys where xs: "xs = l # ys" by (cases xs) auto
  with assms(2) have "set ys \<subseteq> set (acc @ [l])" by auto
  from fold_new_absorb [OF this] assms(3) show ?thesis by (simp add: xs)
qed

lemma fold_new_groups:
  "distinct q \<Longrightarrow> set q \<inter> set acc = {} \<Longrightarrow> (\<And>l. l \<in> set q \<Longrightarrow> g l \<noteq> [] \<and> set (g l) \<subseteq> {l})
     \<Longrightarrow> fold (\<lambda>col order. if col \<notin> set order then order @ [col] else order) (concat (map g q)) acc
         = acc @ q"
proof (induction q arbitrary: acc)
  case Nil
  then show ?case by simp
next
  case (Cons l q)
  from Cons.prems have g: "g l \<noteq> []" "set (g l) \<subseteq> {l}" and l: "l \<notin> set acc" by auto
  have 1: "fold (\<lambda>col order. if col \<notin> set order then order @ [col] else order) (g l) acc = acc @ [l]"
    by (rule fold_new_run [OF g l])
  have 2: "fold (\<lambda>col order. if col \<notin> set order then order @ [col] else order) (concat (map g q)) (acc @ [l])
      = (acc @ [l]) @ q"
  proof (rule Cons.IH)
    show "distinct q" using Cons.prems(1) by simp
    show "set q \<inter> set (acc @ [l]) = {}" using Cons.prems(1,2) by auto
    show "g k \<noteq> [] \<and> set (g k) \<subseteq> {k}" if "k \<in> set q" for k using Cons.prems(3) [of k] that by simp
  qed
  show ?case by (simp add: 1 2)
qed

lemma columns_select:
  "columns (select_cols ls df) = concat (map (\<lambda>l. filter (\<lambda>x. x = l) (columns df)) ls)"
  by (simp add: columns_def select_cols_def map_concat comp_def filter_map)

lemma has_col_reorder: "has_col name (select_cols (final_order df) df) = has_col name df"
  by (simp add: has_col_values col_values_reorder)

lemma set_columns_reorder: "set (columns (select_cols (final_order df) df)) = set (columns df)"
  using has_col_reorder [of _ df] by (auto simp: has_col_def)

lemma final_order_reorder: "final_order (select_cols (final_order df) df) = final_order df"
proof -
  let ?P = "filter (\<lambda>col. has_col col df) column_order"
  let ?g = "\<lambda>l. filter (\<lambda>x. x = l) (columns df)"
  from fold_new_prefix [of "columns df" ?P] obtain q where q: "final_order df = ?P @ q"
    unfolding final_order_def by blast
  from final_order_distinct [of df] have d: "distinct (?P @ q)" by (simp only: q)
  from final_order_set [of df] have s: "set (?P @ q) = set (columns df)" by (simp only: q)
  have "final_order (select_cols (final_order df) df) =
      fold (\<lambda>col order. if col \<notin> set order then order @ [col] else order)
        (concat (map ?g (final_order df))) ?P"
    unfolding final_order_def [of "select_cols (final_order df) df"] has_col_reorder columns_select ..
  also have "\<dots> =
      fold (\<lambda>col order. if col \<notin> set order then order @ [col] else order) (concat (map ?g (?P @ q))) ?P"
    by (simp only: q)
  also have "\<dots> = fold (\<lambda>col order. if col \<notin> set order then order @ [col] else order) (concat (map ?g q))
      (fold (\<lambda>col order. if col \<notin> set order then order @ [col] else order) (concat (map ?g ?P)) ?P)"
    by simp
  also have "fold (\<lambda>col order. if col \<notin> set order then order @ [col] else order) (concat (map ?g ?P)) ?P = ?P"
    by (rule fold_new_absorb) auto
  also have "fold (\<lambda>col order. if col \<notin> set order then order @ [col] else order) (concat (map ?g q)) ?P = ?P @ q"
  proof (rule fold_new_groups)
    show "distinct q" using d by simp
    show "set q \<inter> set ?P = {}" using d by auto
    show "?g l \<noteq> [] \<and> set (?g l) \<subseteq> {l}" if "l \<in> set q" for l
    proof -
      from that s have "l \<in> set (columns df)" by auto
      then show ?thesis by (auto simp: filter_empty_conv)
    qed
  qed
  finally show ?thesis by (simp only: q)
qed

lemma select_cols_twice: "distinct ls \<Longrightarrow> select_cols ls (select_cols ls df) = select_cols ls df"
proof -
  assume d: "distinct ls"
  let ?o = "select_cols ls df"
  have e: "cols ?o = concat (map (\<lambda>l. filter (\<lambda>c. fst c = l) (cols df)) ls)"
    by (simp add: select_cols_def)
  have "map (\<lambda>l. filter (\<lambda>c. fst c = l) (cols ?o)) ls = map (\<lambda>l. filter (\<lambda>c. fst c = l) (cols df)) ls"
    unfolding e by (rule map_cong [OF refl]) (simp add: filter_concat_select [OF d])
  then have "concat (map (\<lambda>l. filter (\<lambda>c. fst c = l) (cols ?o)) ls) = cols ?o"
    by (simp only: e)
  then show ?thesis by (simp add: select_cols_def [of ls ?o])
qed

lemma reorder_twice:
  "select_cols (final_order (select_cols (final_order df) df)) (select_cols (final_order df) df)
     = select_cols (final_order df) df"
  by (simp add: final_order_reorder select_cols_twice final_order_distinct)

lemma rename_label_id: "x \<notin> set (map fst rename_map) \<Longrightarrow> rename_label x = x"
proof -
  assume "x \<notin> set (map fst rename_map)"
  then have "map_of rename_map x = None" by (simp add: map_of_eq_None_iff)
  then show ?thesis by (simp add: rename_label_def)
qed

lemma rename_values_not_keys: "y \<in> set (map snd rename_map) \<Longrightarrow> y \<notin> set (map fst rename_map)"
  by (auto simp: rename_map_def)

lemma rename_values_kept: "y \<in> set (map snd rename_map) \<Longrightarrow> y \<notin> set cols_to_drop"
  by (auto simp: rename_map_def cols_to_drop_def)

lemma rename_label_not_key: "rename_label x \<notin> set (map fst rename_map)"
proof (cases "x \<in> set (map fst rename_map)")
  case True
  then show ?thesis by (intro rename_values_not_keys rename_label_key)
next
  case False
  then show ?thesis by (simp add: rename_label_id)
qed

lemma cleaned_labels:
  assumes "l \<in> set (columns (reordered (remove_unused_columns df)))"
  shows "l \<notin> set (map fst rename_map)" and "l \<notin> set cols_to_drop"
proof -
  from assms have "l \<in> rename_label ` set (filter (\<lambda>l. l \<notin> set cols_to_drop) (columns df))"
    by (simp add: reordered_def Let_def set_columns_reorder columns_rename columns_remove)
  then obtain y where y: "y \<notin> set cols_to_drop" "l = rename_label y" by auto
  from y(2) show "l \<notin> set (map fst rename_map)" by (simp only: rename_label_not_key not_False_eq_True)
  from rename_label_range [of y] show "l \<notin> set cols_to_drop"
  proof
    assume "rename_label y = y"
    with y show ?thesis by simp
  next
    assume "rename_label y \<in> set (map snd rename_map)"
    with y(2) show ?thesis by (simp only: rename_values_kept not_False_eq_True)
  qed
qed

lemma remove_id:
  assumes "\<And>l. l \<in> set (columns df) \<Longrightarrow> l \<notin> set cols_to_drop"
  shows "remove_unused_columns df = df"
proof -
  have "filter (\<lambda>c. fst c \<notin> set cols_to_drop) (cols df) = cols df"
    unfolding filter_id_conv using assms by (auto simp: columns_def)
  then show ?thesis by (simp add: remove_unused_columns_eq)
qed

lemma rename_id:
  assumes "\<And>l. l \<in> set (columns df) \<Longrightarrow> l \<notin> set (map fst rename_map)"
  shows "rename_columns df = df"
proof -
  have "map (\<lambda>c. (rename_label (fst c), snd c)) (cols df) = cols df"
  proof (rule map_idI)
    fix c assume "c \<in> set (cols df)"
    then have "fst c \<in> set (columns df)" by (simp add: columns_def)
    from rename_label_id [OF assms [OF this]] show "(rename_label (fst c), snd c) = c" by simp
  qed
  then show ?thesis by (simp add: rename_columns_def)
qed

lemma finalise_twice:
  "reordered (remove_unused_columns
     (reordered (remove_unused_columns df)))
   = reordered (remove_unused_columns df)"
proof -
  let ?out = "reordered (remove_unused_columns df)"
  let ?r = "rename_columns (remove_unused_columns df)"
  have o: "?out = select_cols (final_order ?r) ?r" by (simp add: reordered_def Let_def)
  have 1: "remove_unused_columns ?out = ?out" by (rule remove_id) (rule cleaned_labels)
  have 2: "rename_columns ?out = ?out" by (rule rename_id) (rule cleaned_labels)
  have "reordered ?out = select_cols (final_order ?out) ?out"
    by (simp only: reordered_def [of ?out] Let_def 2)
  also have "\<dots> = ?out" unfolding o by (rule reorder_twice)
  finally show ?thesis by (simp only: 1)
qed

lemma process_dates_and_ages_new:
  assumes "process_dates_and_ages df = Inr out" "has_col name out"
  shows "has_col name df \<or> name = ''age_years'' \<or> name = ''zodiac_sign''"
proof (cases "dob_col_of df")
  case None
  then have "filter (\<lambda>c. has_col c df) dob_labels = []"
    by (simp add: dob_col_of_def split: list.splits)
  with assms show ?thesis by (simp add: process_dates_and_ages_def)
next
  case (Some dob_col)
  then obtain cs where f: "filter (\<lambda>c. has_col c df) dob_labels = dob_col # cs"
    by (auto simp: dob_col_of_def split: list.splits)
  from assms(1) obtain dates ages signs where
    "out = set_col ''zodiac_sign'' signs (set_col ''age_years'' ages (set_col dob_col dates df))"
    unfolding process_dates_and_ages_def f
    by (auto simp: Let_def dest!: bind_err_Inr)
  with assms(2) dob_col_of_label [OF Some] show ?thesis by (auto simp: has_col_set_col)
qed

lemma date_label_not_new:
  assumes "clean_dataframe df = Inr out" "name = ''Date of Birth'' \<or> name = ''DOB''" "has_col name out"
  shows "has_col name df"
proof -
  from clean_dataframe_Inr [OF assms(1)] obtain d1 d2 d3 d4 d5 d6 d7 d8 where s:
    "process_aliases df = Inr d1" "process_dates_and_ages d1 = Inr d2"
    "process_occupations d2 = Inr d3" "process_birth_places d3 = Inr d4"
    "process_languages d4 = Inr d5" "process_hair_color d5 = Inr d6"
    "process_physical_measurements d6 = Inr d7" "process_marks_and_caution d7 = Inr d8"
    "out = reordered (remove_unused_columns d8)" by blast
  note t38 = touches_trans [OF process_occupations_touches [OF s(3)]
       touches_trans [OF process_birth_places_touches [OF s(4)]
       touches_trans [OF process_languages_touches [OF s(5)]
       touches_trans [OF process_hair_color_touches [OF s(6)]
       touches_trans [OF process_physical_measurements_touches [OF s(7)]
          process_marks_and_caution_touches [OF s(8)]]]]]]
  from assms(2) have k: "stable_label name" "name \<notin> set cols_to_drop"
    by (auto simp: stable_label_def rename_map_def cols_to_drop_def)
  have "col_values name out = col_values name d8"
    unfolding s(9) by (rule col_values_final) (rule k)+
  with assms(3) have "has_col name d8" by (simp add: has_col_values)
  from touches_new [OF t38 this] assms(2) have "has_col name d2" by auto
  from process_dates_and_ages_new [OF s(2) this] assms(2) have "has_col name d1" by auto
  from touches_new [OF process_aliases_touches [OF s(1)] this] assms(2) show ?thesis by auto
qed

lemma second_pass_stages:
  assumes "\<And>l. l \<in> set (columns out) \<Longrightarrow> l \<notin> set (map fst rename_map) \<and> l \<notin> set cols_to_drop"
    and "\<not> has_col ''Date of Birth'' out" "\<not> has_col ''DOB'' out"
  shows "clean_dataframe out = rename_and_reorganize_columns (remove_unused_columns out)"
proof -
  have k: "\<not> has_col l out" if "l \<in> set (map fst rename_map) \<or> l \<in> set cols_to_drop" for l
    using assms(1) [of l] that by (auto simp: has_col_def)
  have h: "\<not> has_col ''alias'' out" "\<not> has_col ''Date(s) of Birth Used'' out"
    "\<not> has_col ''Occupation'' out" "\<not> has_col ''Place of Birth'' out"
    "\<not> has_col ''Languages'' out" "\<not> has_col ''Hair'' out"
    "\<not> has_col ''Height'' out" "\<not> has_col ''Weight'' out"
    "\<not> has_col ''Scars and Marks'' out" "\<not> has_col ''caution'' out"
    by (rule k, simp add: rename_map_def cols_to_drop_def)+
  from h(2) assms(2,3) have d: "process_dates_and_ages out = Inr out"
    by (simp add: process_dates_and_ages_def dob_labels_def)
  from h d show ?thesis
    by (simp add: clean_dataframe_def process_aliases_def process_occupations_def
        process_birth_places_def process_languages_def process_hair_color_def
        process_physical_measurements_def process_height_def process_weight_def
        process_marks_and_caution_def process_marks_def process_caution_def)
qed

lemma two_dates_first: "clean_dataframe two_dates_frame = Inr two_dates_once"
  by (rule clean_dataframe_eval [of _ "projr (stages two_dates_frame)"]; code_simp)

lemma two_dates_second: "clean_dataframe two_dates_once = Inr two_dates_twice"
  by (rule clean_dataframe_eval [of _ "projr (stages two_dates_once)"]; code_simp)

text \<open>
  A table with the labels \<^verbatim>\<open>Date(s) of Birth Used\<close> and \<^verbatim>\<open>Date of Birth\<close>: the first pass
  derives the age from the first and renames it, so that the second pass finds the
  other one, parses it and derives the age and the sign again, from another date.
\<close>

theorem second_pass_changes_ages:
  "clean_dataframe two_dates_frame = Inr two_dates_once
   \<and> clean_dataframe two_dates_once = Inr two_dates_twice
   \<and> col_values ''date_of_birth'' two_dates_twice = [[DateV \<lparr>year = 1990, month = 1, day = 1\<rparr>]]
   \<and> col_values ''age_years'' two_dates_once = [[IntV 35]]
   \<and> col_values ''age_years'' two_dates_twice = [[IntV 45]]
   \<and> two_dates_twice \<noteq> two_dates_once"
  using two_dates_first two_dates_second
  by (simp add: col_values_def two_dates_once_def two_dates_twice_def)

text \<open>
  Claim C9, as the code has it. When the input has no column \<^verbatim>\<open>Date of Birth\<close> or \<^verbatim>\<open>DOB\<close>
  and \<^verbatim>\<open>clean_dataframe\<close> returns a table, \<^verbatim>\<open>clean_dataframe\<close> on that table returns it
  unchanged: every source column has been dropped or renamed, so no stage runs, and
  dropping, renaming and reordering leave the table as it is.
\<close>

theorem clean_dataframe_second_pass:
  assumes "clean_dataframe df = Inr out"
    and "\<not> has_col ''Date of Birth'' df" "\<not> has_col ''DOB'' df"
  shows "clean_dataframe out = Inr out"
proof -
  from clean_dataframe_Inr [OF assms(1)] obtain d8 where
    o: "out = reordered (remove_unused_columns d8)"
    and f: "rename_and_reorganize_columns (remove_unused_columns d8) = Inr out" by blast
  have l: "l \<notin> set (map fst rename_map) \<and> l \<notin> set cols_to_drop" if "l \<in> set (columns out)" for l
    using that cleaned_labels [of l d8] by (simp add: o)
  have r: "remove_unused_columns out = out" by (rule remove_id) (simp add: l)
  have "reordered (remove_unused_columns out) = out" unfolding o by (rule finalise_twice)
  then have e: "reordered out = out" by (simp only: r)
  have "clean_dataframe out = rename_and_reorganize_columns (remove_unused_columns out)"
  proof (rule second_pass_stages)
    show "l \<notin> set (map fst rename_map) \<and> l \<notin> set cols_to_drop" if "l \<in> set (columns out)" for l
      using that by (rule l)
    show "\<not> has_col ''Date of Birth'' out"
      using date_label_not_new [OF assms(1), of "''Date of Birth''"] assms(2) by auto
    show "\<not> has_col ''DOB'' out"
      using date_label_not_new [OF assms(1), of "''DOB''"] assms(3) by auto
  qed
  also note r
  also have "rename_and_reorganize_columns out = Inr (reordered out)"
  proof (rule finalise_ok)
    from finalise_Inr [OF f]
    have "\<not> list_ex (\<lambda>col. has_col col out \<and> 1 < length (col_values col out)) bool_cols"
      by (rule conjunct2)
    then show "\<not> list_ex (\<lambda>col. has_col col (reordered out) \<and> 1 < length (col_values col (reordered out))) bool_cols"
      by (simp add: e)
  qed
  also note e
  finally show ?thesis .
qed

theorem clean_dataframe_second_pass_witness:
  "clean_dataframe sample_frame = Inr sample_cleaned
   \<and> \<not> has_col ''Date of Birth'' sample_frame \<and> \<not> has_col ''DOB'' sample_frame
   \<and> clean_dataframe sample_cleaned = Inr sample_cleaned"
proof -
  have h: "\<not> has_col ''Date of Birth'' sample_frame" "\<not> has_col ''DOB'' sample_frame"
    by (simp_all add: has_col_def columns_def sample_frame_def)
  from clean_dataframe_second_pass [OF sample_frame_cleaned h] sample_frame_cleaned h
  show ?thesis by simp
qed

end
